(* ===== verification/TTT_Prelude.thy ===== *)
theory TTT_Prelude
  imports Main "HOL-Library.Word"
begin

text \<open>
  Shared vocabulary of the development: the Rust run-time behaviour that
  \<^verbatim>\<open>src/src/main.rs\<close> relies on without writing it down.

  \<^item> \<open>usize\<close> is a 64-bit word (a 64-bit target is assumed); \<open>unat\<close> reads it.
  \<^item> A computation that may panic has type \<open>'a exec = panic + 'a\<close>: \<open>Inl p\<close> is the
    panic \<open>p\<close>, \<open>Inr v\<close> the value \<open>v\<close>. The panics are an index out of range, an
    arithmetic overflow, \<^verbatim>\<open>unreachable!()\<close> and a \<^verbatim>\<open>println!\<close> whose write fails. \<open>pbind\<close> sequences two computations and
    \<open>and_also\<close> is the short-circuit \<^verbatim>\<open>&&\<close>, whose right operand is not run when the
    left one is false.
  \<^item> \<open>usize_add\<close> and \<open>usize_mul\<close> are \<^verbatim>\<open>+\<close> and \<^verbatim>\<open>*\<close> with the overflow check of the
    default (debug) profile; the lemmas \<open>usize_add_ok\<close>, \<open>usize_mul_ok\<close> say when the
    check passes, and then the wrapping result of the release profile is the same.
  \<^item> \<open>index_at\<close> and \<open>store_at\<close> are the bounds-checked array read \<^verbatim>\<open>a[i]\<close> and write
    \<^verbatim>\<open>a[i] = v\<close>.
  \<^item> \<open>exec_list\<close> evaluates a list of computations from left to right, as the
    arguments of a call are evaluated, and stops at the first panic.
  \<^item> \<open>format_args pieces args\<close> is \<^verbatim>\<open>write!\<close> with a format string whose literal text,
    cut at each \<^verbatim>\<open>{}\<close>, is \<open>pieces\<close>, and whose arguments are already displayed as \<open>args\<close>.

  The collections \<open>exec_eval\<close> (defining equations, for evaluating closed terms) and
  \<open>exec_ok\<close> (conditions under which an operation does not panic) carry the
  component proofs.
\<close>

named_theorems exec_eval "defining equations used to evaluate closed terms"
named_theorems exec_ok "success conditions of the checked operations"

type_synonym usize = "64 word"

datatype panic = IndexOutOfBounds | ArithmeticOverflow | Unreachable | FailedPrinting

type_synonym 'a exec = "panic + 'a"

definition pbind :: "'a exec \<Rightarrow> ('a \<Rightarrow> 'b exec) \<Rightarrow> 'b exec" where
  "pbind m f = (case m of Inl p \<Rightarrow> Inl p | Inr v \<Rightarrow> f v)"

definition and_also :: "bool exec \<Rightarrow> bool exec \<Rightarrow> bool exec" where
  "and_also a b = pbind a (\<lambda>v. if v then b else Inr False)"

definition usize_add :: "usize \<Rightarrow> usize \<Rightarrow> usize exec" where
  "usize_add a b =
     (if unat a + unat b < 2 ^ 64 then Inr (a + b) else Inl ArithmeticOverflow)"

definition usize_mul :: "usize \<Rightarrow> usize \<Rightarrow> usize exec" where
  "usize_mul a b =
     (if unat a * unat b < 2 ^ 64 then Inr (a * b) else Inl ArithmeticOverflow)"

definition index_at :: "'a list \<Rightarrow> usize \<Rightarrow> 'a exec" where
  "index_at xs i =
     (if unat i < length xs then Inr (xs ! unat i) else Inl IndexOutOfBounds)"

definition store_at :: "'a list \<Rightarrow> usize \<Rightarrow> 'a \<Rightarrow> 'a list exec" where
  "store_at xs i v =
     (if unat i < length xs then Inr (xs[unat i := v]) else Inl IndexOutOfBounds)"

fun exec_list :: "'a exec list \<Rightarrow> 'a list exec" where
  "exec_list [] = Inr []"
| "exec_list (m # ms) = pbind m (\<lambda>v. pbind (exec_list ms) (\<lambda>vs. Inr (v # vs)))"

fun format_args :: "string list \<Rightarrow> string list \<Rightarrow> string" where
  "format_args [] args = []"
| "format_args (piece # pieces) [] = piece @ format_args pieces []"
| "format_args (piece # pieces) (arg # args) = piece @ arg @ format_args pieces args"

definition no_panic :: "'a exec \<Rightarrow> bool" where
  "no_panic m = (case m of Inl _ \<Rightarrow> False | Inr _ \<Rightarrow> True)"

lemmas [exec_eval] =
  pbind_def and_also_def usize_add_def usize_mul_def index_at_def store_at_def
  no_panic_def

subsection \<open>Sequencing\<close>

lemma pbind_Inr [simp]: "pbind (Inr v) f = f v"
  by (simp add: pbind_def)

lemma pbind_Inl [simp]: "pbind (Inl p) f = Inl p"
  by (simp add: pbind_def)

lemma pbind_eq_Inr_iff: "pbind m f = Inr r \<longleftrightarrow> (\<exists>v. m = Inr v \<and> f v = Inr r)"
  by (cases m) simp_all

lemma pbind_eq_Inl_iff:
  "pbind m f = Inl p \<longleftrightarrow> m = Inl p \<or> (\<exists>v. m = Inr v \<and> f v = Inl p)"
  by (cases m) simp_all

lemma pbind_assoc: "pbind (pbind m f) g = pbind m (\<lambda>v. pbind (f v) g)"
  by (cases m) simp_all

lemma and_also_simps [simp]:
  "and_also (Inr True) b = b"
  "and_also (Inr False) b = Inr False"
  "and_also (Inl p) b = Inl p"
  by (simp_all add: and_also_def)

lemma and_also_Inr: "and_also (Inr a) (Inr b) = Inr (a \<and> b)"
  by (cases a) simp_all

lemma and_also_short_circuit: "and_also (Inr False) (Inl p) = Inr False"
  by simp

lemma no_panic_simps [simp]: "no_panic (Inr v)" "\<not> no_panic (Inl p)"
  by (simp_all add: no_panic_def)

lemma no_panic_iff: "no_panic m \<longleftrightarrow> (\<exists>v. m = Inr v)"
  by (cases m) simp_all

lemma exec_list_map_Inr [simp]: "exec_list (map Inr xs) = Inr xs"
  by (induction xs) simp_all

lemma exec_list_Inr_length: "exec_list ms = Inr vs \<Longrightarrow> length vs = length ms"
  by (induction ms arbitrary: vs) (auto simp: pbind_eq_Inr_iff)

lemma exec_list_index_at:
  "\<forall>i \<in> set is. unat i < length xs \<Longrightarrow>
   exec_list (map (index_at xs) is) = Inr (map (\<lambda>i. xs ! unat i) is)"
  by (induction "is") (simp_all add: index_at_def)

lemma no_panic_pbind: "no_panic (pbind m f) \<longleftrightarrow> (\<exists>v. m = Inr v \<and> no_panic (f v))"
  by (cases m) simp_all

lemma exec_list_no_panic: "no_panic (exec_list ms) \<longleftrightarrow> (\<forall>m \<in> set ms. no_panic m)"
proof (induction ms)
  case Nil
  show ?case by simp
next
  case (Cons m ms)
  then show ?case
    by (cases m; cases "exec_list ms") simp_all
qed

lemma format_args_no_args [simp]: "format_args pieces [] = concat pieces"
  by (induction pieces) simp_all

subsection \<open>Checked arithmetic on \<open>usize\<close>\<close>

lemma usize_lt_3_iff: "(x::usize) < 3 \<longleftrightarrow> unat x < 3"
  by (simp add: word_less_nat_alt)

lemma usize_ge_3_iff [exec_eval]: "3 \<le> (x::usize) \<longleftrightarrow> 3 \<le> unat x"
  by (simp add: word_le_nat_alt)

lemma unat_lt_3_cases: "unat (x::usize) < 3 \<Longrightarrow> x = 0 \<or> x = 1 \<or> x = 2"
proof -
  assume "unat x < 3"
  then have "unat x = 0 \<or> unat x = 1 \<or> unat x = 2" by arith
  then have "unat x = unat (0::usize) \<or> unat x = unat (1::usize) \<or> unat x = unat (2::usize)"
    by simp
  then show ?thesis by (simp only: word_unat_eq_iff [symmetric])
qed

lemma usize_add_ok [exec_ok]:
  "unat a + unat b < 2 ^ 64 \<Longrightarrow> usize_add a b = Inr (a + b)"
  by (simp add: usize_add_def)

lemma usize_mul_ok [exec_ok]:
  "unat a * unat b < 2 ^ 64 \<Longrightarrow> usize_mul a b = Inr (a * b)"
  by (simp add: usize_mul_def)

lemma unat_usize_add: "unat a + unat b < 2 ^ 64 \<Longrightarrow> unat (a + b :: usize) = unat a + unat b"
  by (simp add: unat_word_ariths)

lemma unat_usize_mul: "unat a * unat b < 2 ^ 64 \<Longrightarrow> unat (a * b :: usize) = unat a * unat b"
  by (simp add: unat_word_ariths)

lemma usize_add_Inr_iff:
  "usize_add a b = Inr c \<longleftrightarrow> unat a + unat b < 2 ^ 64 \<and> c = a + b"
  by (auto simp: usize_add_def)

lemma usize_add_overflow:
  "2 ^ 64 \<le> unat a + unat b \<Longrightarrow> usize_add a b = Inl ArithmeticOverflow"
  by (simp add: usize_add_def)

lemma usize_mul_overflow:
  "2 ^ 64 \<le> unat a * unat b \<Longrightarrow> usize_mul a b = Inl ArithmeticOverflow"
  by (simp add: usize_mul_def)

subsection \<open>Bounds-checked array access\<close>

lemma index_at_ok [exec_ok]: "unat i < length xs \<Longrightarrow> index_at xs i = Inr (xs ! unat i)"
  by (simp add: index_at_def)

lemma index_at_out_of_bounds:
  "length xs \<le> unat i \<Longrightarrow> index_at xs i = Inl IndexOutOfBounds"
  by (simp add: index_at_def)

lemma store_at_ok [exec_ok]:
  "unat i < length xs \<Longrightarrow> store_at xs i v = Inr (xs[unat i := v])"
  by (simp add: store_at_def)

lemma store_at_length: "store_at xs i v = Inr ys \<Longrightarrow> length ys = length xs"
  by (auto simp: store_at_def split: if_splits)

lemma index_at_store_at:
  "store_at xs i v = Inr ys \<Longrightarrow> index_at ys i = Inr v"
  by (auto simp: store_at_def index_at_def split: if_splits)

subsection \<open>Lists of a fixed length\<close>

lemma length_9_cases:
  assumes "length xs = 9"
  obtains a b c d e f g h i where "xs = [a, b, c, d, e, f, g, h, i]"
proof -
  from assms obtain a b c d e f g h i ys
    where "xs = a # b # c # d # e # f # g # h # i # ys"
    by (auto simp: numeral_eq_Suc length_Suc_conv)
  with assms that show thesis by simp
qed

lemma nat_lt_3_cases: "(n::nat) < 3 \<Longrightarrow> n = 0 \<or> n = 1 \<or> n = 2"
  by arith

lemma nat_lt_9_cases:
  "(n::nat) < 9 \<Longrightarrow> n = 0 \<or> n = 1 \<or> n = 2 \<or> n = 3 \<or> n = 4 \<or> n = 5 \<or> n = 6 \<or> n = 7 \<or> n = 8"
  by arith

end
