(* ===== verification/TTT_Types.thy ===== *)
theory TTT_Types
  imports TTT_Prelude
begin

text \<open>
  The three enumerations of \<^verbatim>\<open>src/src/main.rs\<close> and their \<^verbatim>\<open>Display\<close> implementations.

  \<^item> \<open>BoardCell\<close> (lines 3-7): the content of a cell, also used by the program for
    the player to move and for the winner. The constructors \<^verbatim>\<open>O\<close> and \<^verbatim>\<open>None\<close>
    are written \<open>O_cell\<close> and \<open>None_cell\<close>, since \<open>O\<close> is the composition of
    relations and \<open>None\<close> the empty option of HOL.
  \<^item> \<open>BoardError\<close> (lines 19-22): the two ways \<^verbatim>\<open>changeState\<close> rejects a move.
  \<^item> \<open>GameState\<close> (lines 101-105): in progress, or ended with a winner, where the
    winner \<open>None_cell\<close> means a draw.
  \<^item> \<open>fmt_BoardCell\<close>, \<open>fmt_BoardError\<close>, \<open>fmt_GameState\<close>: the text each value is
    printed as.
  \<^item> \<open>is_mark\<close> says that a cell value is a player's mark, and \<open>other\<close> is the
    opponent's mark; both are notions of the specification.

  The lemmas say that printing loses nothing (the three functions are injective),
  that a cell is printed as exactly one character, and that \<open>BoardCell\<close> has the
  three values listed, which the later case analyses use.
\<close>

datatype BoardCell = X | O_cell | None_cell

datatype BoardError = OutOfBounds | AlreadyChanged

datatype GameState = InProgress | End BoardCell

fun fmt_BoardCell :: "BoardCell \<Rightarrow> string" where
  "fmt_BoardCell X = ''X''"
| "fmt_BoardCell O_cell = ''O''"
| "fmt_BoardCell None_cell = '' ''"

fun fmt_BoardError :: "BoardError \<Rightarrow> string" where
  "fmt_BoardError OutOfBounds = ''Invalid index, max range of x and y is 2''"
| "fmt_BoardError AlreadyChanged =
     ''You can't change your or a previous player's answer''"

fun fmt_GameState :: "GameState \<Rightarrow> string" where
  "fmt_GameState InProgress = ''In progress game state''"
| "fmt_GameState (End player) =
     (case player of
        X \<Rightarrow> ''Player 1 wins!''
      | O_cell \<Rightarrow> ''Player 2 wins!''
      | None_cell \<Rightarrow> ''The game was a draw'')"

definition is_mark :: "BoardCell \<Rightarrow> bool" where
  "is_mark c \<longleftrightarrow> c = X \<or> c = O_cell"

fun other :: "BoardCell \<Rightarrow> BoardCell" where
  "other X = O_cell"
| "other O_cell = X"
| "other None_cell = None_cell"

subsection \<open>The values of a cell\<close>

lemma UNIV_BoardCell: "UNIV = {X, O_cell, None_cell}"
  by (auto intro: BoardCell.exhaust)

lemma finite_BoardCell [simp]: "finite (A :: BoardCell set)"
  by (rule finite_subset [OF subset_UNIV]) (simp add: UNIV_BoardCell)

lemma is_mark_simps [simp]: "is_mark X" "is_mark O_cell" "\<not> is_mark None_cell"
  by (simp_all add: is_mark_def)

lemma is_mark_iff: "is_mark c \<longleftrightarrow> c \<noteq> None_cell"
  by (cases c) simp_all

lemma not_mark_iff: "\<not> is_mark c \<longleftrightarrow> c = None_cell"
  by (cases c) simp_all

lemma other_simps [simp]:
  "other (other c) = c" "is_mark (other c) = is_mark c" "(other c = c) = (c = None_cell)"
  "(c = other c) = (c = None_cell)"
  by (cases c; simp)+

lemma is_mark_cases: "is_mark c \<Longrightarrow> c = X \<or> c = O_cell"
  by (simp add: is_mark_def)

subsection \<open>Printing\<close>

lemma fmt_BoardCell_length [simp]: "length (fmt_BoardCell c) = 1"
  by (cases c) simp_all

lemma fmt_BoardCell_inj: "fmt_BoardCell c = fmt_BoardCell d \<longleftrightarrow> c = d"
  by (cases c; cases d) simp_all

lemma fmt_BoardCell_blank: "fmt_BoardCell c = '' '' \<longleftrightarrow> c = None_cell"
  by (cases c) simp_all

lemma fmt_BoardError_inj: "fmt_BoardError e = fmt_BoardError f \<longleftrightarrow> e = f"
  by (cases e; cases f) simp_all

lemma fmt_GameState_inj: "fmt_GameState s = fmt_GameState t \<longleftrightarrow> s = t"
proof (cases s)
  case InProgress
  then show ?thesis by (cases t) (auto split: BoardCell.splits)
next
  case (End p)
  then show ?thesis by (cases t; cases p) (auto split: BoardCell.splits)
qed

end
