(* ===== verification/TTT_Rules.thy ===== *)
theory TTT_Rules
  imports TTT_Types
begin

text \<open>
  The rules of the game, as the specification states them, independent of how
  \<^verbatim>\<open>src/src/main.rs\<close> computes them. They are the reference the board of
  \<open>TTT_Board\<close> is proved against.

  \<^item> A \<open>grid\<close> is the list of the nine cells, the cell of column \<open>c\<close> and row \<open>r\<close>
    at \<open>cell_index c r = c + 3 * r\<close>.
  \<^item> \<open>win_lines\<close> are the eight winning triples; \<open>wins g m\<close> says that one of
    them holds \<open>m\<close> in all three cells; \<open>full g\<close> that no cell is empty.
  \<^item> \<open>outcome g m\<close> is the state of the game after \<open>m\<close> has moved, and
    \<open>apply_move g m c r\<close> the whole move: rejected out of range, rejected on an
    occupied cell, otherwise the cell is set and the outcome evaluated.
  \<^item> \<open>local_win g m c r\<close> looks only at the column \<open>c\<close>, the row \<open>r\<close> and the two
    diagonals, in that order: the four checks the program makes after a move.
  \<^item> \<open>marks g\<close> counts the cells that are not empty.
  \<^item> \<open>render g\<close> is the text of the grid as section 6 of the specification gives
    it, and \<open>read_board\<close> reads such a text back.

  The central lemma, \<open>wins_after_move\<close>, says that after a move to (\<open>c\<close>, \<open>r\<close>) the
  mover has a complete line exactly when the four local checks find one or a line
  was complete before: looking at four lines instead of eight loses nothing.
\<close>

type_synonym grid = "BoardCell list"

definition cell_index :: "nat \<Rightarrow> nat \<Rightarrow> nat" where
  "cell_index c r = c + 3 * r"

definition empty_grid :: grid where
  "empty_grid = replicate 9 None_cell"

definition column_line :: "nat \<Rightarrow> nat list" where
  "column_line c = [c, c + 3, c + 6]"

definition row_line :: "nat \<Rightarrow> nat list" where
  "row_line r = [3 * r, 3 * r + 1, 3 * r + 2]"

definition diag_main :: "nat list" where
  "diag_main = [0, 4, 8]"

definition diag_anti :: "nat list" where
  "diag_anti = [2, 4, 6]"

definition win_lines :: "nat list list" where
  "win_lines =
     [column_line 0, column_line 1, column_line 2,
      row_line 0, row_line 1, row_line 2, diag_main, diag_anti]"

definition line_complete :: "grid \<Rightarrow> BoardCell \<Rightarrow> nat list \<Rightarrow> bool" where
  "line_complete g m l = list_all (\<lambda>i. g ! i = m) l"

definition wins :: "grid \<Rightarrow> BoardCell \<Rightarrow> bool" where
  "wins g m = list_ex (line_complete g m) win_lines"

definition full :: "grid \<Rightarrow> bool" where
  "full g = list_all is_mark g"

definition marks :: "grid \<Rightarrow> nat" where
  "marks g = length (filter is_mark g)"

definition local_win :: "grid \<Rightarrow> BoardCell \<Rightarrow> nat \<Rightarrow> nat \<Rightarrow> bool" where
  "local_win g m c r \<longleftrightarrow>
     line_complete g m (column_line c) \<or> line_complete g m (row_line r) \<or>
     line_complete g m diag_main \<or> line_complete g m diag_anti"

definition outcome :: "grid \<Rightarrow> BoardCell \<Rightarrow> GameState" where
  "outcome g m =
     (if wins g m then End m else if full g then End None_cell else InProgress)"

definition local_outcome :: "grid \<Rightarrow> BoardCell \<Rightarrow> nat \<Rightarrow> nat \<Rightarrow> GameState" where
  "local_outcome g m c r =
     (if local_win g m c r then End m else if full g then End None_cell else InProgress)"

definition apply_move :: "grid \<Rightarrow> BoardCell \<Rightarrow> nat \<Rightarrow> nat \<Rightarrow> BoardError + GameState \<times> grid" where
  "apply_move g m c r =
     (if 3 \<le> c \<or> 3 \<le> r then Inl OutOfBounds
      else if g ! cell_index c r \<noteq> None_cell then Inl AlreadyChanged
      else Inr (outcome (g[cell_index c r := m]) m, g[cell_index c r := m]))"

definition render_row :: "grid \<Rightarrow> nat \<Rightarrow> string" where
  "render_row g r =
     fmt_BoardCell (g ! (3 * r)) @ ''|'' @ fmt_BoardCell (g ! (3 * r + 1)) @ ''|'' @
     fmt_BoardCell (g ! (3 * r + 2)) @ ''\<newline>''"

definition render :: "grid \<Rightarrow> string" where
  "render g =
     render_row g 0 @ ''-+-+-\<newline>'' @ render_row g 1 @ ''-+-+-\<newline>'' @ render_row g 2"

definition read_cell :: "char \<Rightarrow> BoardCell option" where
  "read_cell ch =
     (if ch = CHR ''X'' then Some X else if ch = CHR ''O'' then Some O_cell
      else if ch = CHR '' '' then Some None_cell else None)"

definition read_board :: "string \<Rightarrow> grid option" where
  "read_board s =
     (if length s = 30
      then those (map (\<lambda>k. read_cell (s ! k)) [0, 2, 4, 12, 14, 16, 24, 26, 28])
      else None)"

lemmas rules_defs =
  cell_index_def column_line_def row_line_def diag_main_def diag_anti_def
  win_lines_def line_complete_def wins_def full_def local_win_def outcome_def
  local_outcome_def

lemmas [exec_eval] = rules_defs marks_def apply_move_def

lemma empty_grid_eq [exec_eval]:
  "empty_grid =
     [None_cell, None_cell, None_cell, None_cell, None_cell, None_cell,
      None_cell, None_cell, None_cell]"
  by (simp add: empty_grid_def numeral_eq_Suc)

subsection \<open>Coordinates\<close>

lemma cell_index_less: "c < 3 \<Longrightarrow> r < 3 \<Longrightarrow> cell_index c r < 9"
  by (simp add: cell_index_def)

lemma cell_index_inj:
  "c < 3 \<Longrightarrow> c' < 3 \<Longrightarrow> cell_index c r = cell_index c' r' \<longleftrightarrow> c = c' \<and> r = r'"
  unfolding cell_index_def by presburger

lemma cell_index_surj: "i < 9 \<Longrightarrow> \<exists>c r. c < 3 \<and> r < 3 \<and> i = cell_index c r"
proof -
  assume "i < 9"
  then have "i mod 3 < 3 \<and> i div 3 < 3 \<and> i = cell_index (i mod 3) (i div 3)"
    by (simp add: cell_index_def)
  then show ?thesis by blast
qed

lemma cell_index_on_column: "cell_index c r \<in> set (column_line c) \<longleftrightarrow> r < 3"
  by (auto simp: cell_index_def column_line_def)

lemma cell_index_on_row: "c < 3 \<Longrightarrow> cell_index c r \<in> set (row_line r)"
  by (auto simp: cell_index_def row_line_def dest: nat_lt_3_cases)

lemma win_lines_in_range: "l \<in> set win_lines \<Longrightarrow> i \<in> set l \<Longrightarrow> i < 9"
  by (auto simp: rules_defs)

lemma win_lines_length: "l \<in> set win_lines \<Longrightarrow> length l = 3"
  by (auto simp: rules_defs)

subsection \<open>Complete lines\<close>

lemma line_complete_iff: "line_complete g m l \<longleftrightarrow> (\<forall>i \<in> set l. g ! i = m)"
  by (simp add: line_complete_def list_all_iff)

lemma wins_iff: "wins g m \<longleftrightarrow> (\<exists>l \<in> set win_lines. \<forall>i \<in> set l. g ! i = m)"
  by (simp add: wins_def list_ex_iff line_complete_iff)

lemma line_complete_update_other:
  assumes "k \<notin> set l"
  shows "line_complete (g[k := m']) m l = line_complete g m l"
proof -
  have "g[k := m'] ! i = g ! i" if "i \<in> set l" for i
    using that assms by (intro nth_list_update_neq) auto
  then show ?thesis by (simp add: line_complete_iff)
qed

lemma line_complete_update_same:
  "line_complete g m l \<Longrightarrow> line_complete (g[k := m]) m l"
  by (cases "k < length g") (auto simp: line_complete_iff nth_list_update list_update_beyond)

lemma column_in_win_lines: "c < 3 \<Longrightarrow> column_line c \<in> set win_lines"
  by (auto simp: win_lines_def dest: nat_lt_3_cases)

lemma row_in_win_lines: "r < 3 \<Longrightarrow> row_line r \<in> set win_lines"
  by (auto simp: win_lines_def dest: nat_lt_3_cases)

lemma diag_in_win_lines: "diag_main \<in> set win_lines" "diag_anti \<in> set win_lines"
  by (simp_all add: win_lines_def)

lemma local_win_wins: "c < 3 \<Longrightarrow> r < 3 \<Longrightarrow> local_win g m c r \<Longrightarrow> wins g m"
  unfolding local_win_def wins_def list_ex_iff
  using column_in_win_lines row_in_win_lines diag_in_win_lines by blast

lemma line_through_cell:
  assumes "c < 3" "r < 3" "l \<in> set win_lines" "cell_index c r \<in> set l"
  shows "l = column_line c \<or> l = row_line r \<or> l = diag_main \<or> l = diag_anti"
proof -
  from assms(1,2) have cr: "(c = 0 \<or> c = 1 \<or> c = 2) \<and> (r = 0 \<or> r = 1 \<or> r = 2)"
    by (auto dest: nat_lt_3_cases)
  from assms(3) have l:
    "l = column_line 0 \<or> l = column_line 1 \<or> l = column_line 2 \<or> l = row_line 0 \<or>
     l = row_line 1 \<or> l = row_line 2 \<or> l = diag_main \<or> l = diag_anti"
    by (simp add: win_lines_def)
  from cr l assms(4) show ?thesis
    by (elim conjE disjE) (simp_all add: rules_defs)
qed

lemma wins_after_move:
  assumes "c < 3" "r < 3"
  shows "wins (g[cell_index c r := m]) m \<longleftrightarrow>
    local_win (g[cell_index c r := m]) m c r \<or> wins g m"
proof
  let ?k = "cell_index c r" and ?g = "g[cell_index c r := m]"
  assume "wins ?g m"
  then obtain l where l: "l \<in> set win_lines" "line_complete ?g m l"
    by (auto simp: wins_def list_ex_iff)
  show "local_win ?g m c r \<or> wins g m"
  proof (cases "?k \<in> set l")
    case True
    with assms l(1) have "l = column_line c \<or> l = row_line r \<or> l = diag_main \<or> l = diag_anti"
      by (rule line_through_cell)
    with l(2) show ?thesis by (auto simp: local_win_def)
  next
    case False
    with l(2) have "line_complete g m l" by (simp add: line_complete_update_other)
    with l(1) show ?thesis by (auto simp: wins_def list_ex_iff)
  qed
next
  let ?g = "g[cell_index c r := m]"
  assume "local_win ?g m c r \<or> wins g m"
  then show "wins ?g m"
  proof
    assume "local_win ?g m c r"
    with assms show ?thesis by (rule local_win_wins)
  next
    assume "wins g m"
    then show ?thesis
      by (auto simp: wins_def list_ex_iff intro: line_complete_update_same)
  qed
qed

lemma outcome_eq_local_outcome:
  "c < 3 \<Longrightarrow> r < 3 \<Longrightarrow> \<not> wins g m \<Longrightarrow>
   outcome (g[cell_index c r := m]) m = local_outcome (g[cell_index c r := m]) m c r"
  by (simp add: outcome_def local_outcome_def wins_after_move)

lemma wins_other_after_move:
  assumes "k < length g" and "m' \<noteq> m" and "wins (g[k := m]) m'"
  shows "wins g m'"
proof -
  from assms(3) obtain l where l: "l \<in> set win_lines" "line_complete (g[k := m]) m' l"
    by (auto simp: wins_def list_ex_iff)
  have "k \<notin> set l"
  proof
    assume "k \<in> set l"
    with l(2) have "g[k := m] ! k = m'" by (simp add: line_complete_iff)
    with assms(1,2) show False by simp
  qed
  with l(2) have "line_complete g m' l" by (simp add: line_complete_update_other)
  with l(1) show ?thesis by (auto simp: wins_def list_ex_iff)
qed

lemma wins_after_move_other_iff:
  assumes "k < length g" and "m' \<noteq> m" and "g ! k \<noteq> m'"
  shows "wins (g[k := m]) m' \<longleftrightarrow> wins g m'"
proof
  assume "wins (g[k := m]) m'"
  with assms(1,2) show "wins g m'" by (rule wins_other_after_move)
next
  assume "wins g m'"
  then obtain l where l: "l \<in> set win_lines" "line_complete g m' l"
    by (auto simp: wins_def list_ex_iff)
  with assms(3) have "k \<notin> set l" by (auto simp: line_complete_iff)
  with l(2) have "line_complete (g[k := m]) m' l" by (simp add: line_complete_update_other)
  with l(1) show "wins (g[k := m]) m'" by (auto simp: wins_def list_ex_iff)
qed

lemma not_wins_empty_grid: "is_mark m \<Longrightarrow> \<not> wins empty_grid m"
  by (auto simp: empty_grid_eq rules_defs dest!: is_mark_cases)

subsection \<open>Full grids and the number of marks\<close>

lemma full_iff: "full g \<longleftrightarrow> None_cell \<notin> set g"
  by (auto simp: full_def list_all_iff is_mark_iff)

lemma marks_le_length: "marks g \<le> length g"
  by (simp add: marks_def)

lemma full_iff_marks: "full g \<longleftrightarrow> marks g = length g"
proof (induction g)
  case Nil
  show ?case by (simp add: full_def marks_def)
next
  case (Cons a g)
  have "length (filter is_mark g) \<noteq> Suc (length g)"
    using length_filter_le [of is_mark g] by arith
  with Cons show ?case by (auto simp: full_def marks_def)
qed

lemma marks_empty_grid [simp]: "marks empty_grid = 0"
  by (simp add: marks_def empty_grid_def)

lemma marks_update:
  "k < length g \<Longrightarrow> g ! k = None_cell \<Longrightarrow> is_mark m \<Longrightarrow>
   marks (g[k := m]) = Suc (marks g)"
  unfolding marks_def
proof (induction g arbitrary: k)
  case Nil
  then show ?case by simp
next
  case (Cons a g)
  then show ?case by (cases k) auto
qed

lemma count_list_update:
  "k < length g \<Longrightarrow> g ! k \<noteq> c \<Longrightarrow>
   count_list (g[k := m]) c = (if m = c then Suc (count_list g c) else count_list g c)"
proof (induction g arbitrary: k)
  case Nil
  then show ?case by simp
next
  case (Cons a g)
  then show ?case by (cases k) auto
qed

lemma marks_eq_counts: "marks g = count_list g X + count_list g O_cell"
  by (induction g) (auto simp: marks_def is_mark_def)

lemma not_full_empty_grid [simp]: "\<not> full empty_grid"
  by (simp add: empty_grid_eq full_def)

lemma full_marks_9: "length g = 9 \<Longrightarrow> full g \<longleftrightarrow> marks g = 9"
  by (simp add: full_iff_marks)

subsection \<open>The text of a grid\<close>

lemma read_cell_fmt [simp]: "read_cell (hd (fmt_BoardCell c)) = Some c"
  by (cases c) (simp_all add: read_cell_def)

lemma render_9:
  "render [a, b, c, d, e, f, g, h, i] =
     fmt_BoardCell a @ ''|'' @ fmt_BoardCell b @ ''|'' @ fmt_BoardCell c @ ''\<newline>-+-+-\<newline>'' @
     fmt_BoardCell d @ ''|'' @ fmt_BoardCell e @ ''|'' @ fmt_BoardCell f @ ''\<newline>-+-+-\<newline>'' @
     fmt_BoardCell g @ ''|'' @ fmt_BoardCell h @ ''|'' @ fmt_BoardCell i @ ''\<newline>''"
  by (simp add: render_def render_row_def)

lemma fmt_BoardCell_single: "fmt_BoardCell c = [hd (fmt_BoardCell c)]"
  by (cases c) simp_all

lemma length_render: "length g = 9 \<Longrightarrow> length (render g) = 30"
  by (erule length_9_cases) (simp add: render_9)

lemma read_board_render: "length g = 9 \<Longrightarrow> read_board (render g) = Some g"
proof (erule length_9_cases)
  fix a b c d e f g' h i
  assume g: "g = [a, b, c, d, e, f, g', h, i]"
  have cells: "fmt_BoardCell a = [hd (fmt_BoardCell a)]" "fmt_BoardCell b = [hd (fmt_BoardCell b)]"
    "fmt_BoardCell c = [hd (fmt_BoardCell c)]" "fmt_BoardCell d = [hd (fmt_BoardCell d)]"
    "fmt_BoardCell e = [hd (fmt_BoardCell e)]" "fmt_BoardCell f = [hd (fmt_BoardCell f)]"
    "fmt_BoardCell g' = [hd (fmt_BoardCell g')]" "fmt_BoardCell h = [hd (fmt_BoardCell h)]"
    "fmt_BoardCell i = [hd (fmt_BoardCell i)]"
    by (rule fmt_BoardCell_single)+
  have "render g =
      [hd (fmt_BoardCell a)] @ ''|'' @ [hd (fmt_BoardCell b)] @ ''|'' @ [hd (fmt_BoardCell c)] @
      ''\<newline>-+-+-\<newline>'' @
      [hd (fmt_BoardCell d)] @ ''|'' @ [hd (fmt_BoardCell e)] @ ''|'' @ [hd (fmt_BoardCell f)] @
      ''\<newline>-+-+-\<newline>'' @
      [hd (fmt_BoardCell g')] @ ''|'' @ [hd (fmt_BoardCell h)] @ ''|'' @ [hd (fmt_BoardCell i)] @
      ''\<newline>''"
    unfolding g render_9 using cells by simp
  then show ?thesis
    by (simp add: read_board_def g)
qed

lemma render_inj: "length g = 9 \<Longrightarrow> length g' = 9 \<Longrightarrow> render g = render g' \<Longrightarrow> g = g'"
  by (metis read_board_render option.inject)

subsection \<open>The move\<close>

lemma apply_move_out_of_bounds:
  "3 \<le> c \<or> 3 \<le> r \<Longrightarrow> apply_move g m c r = Inl OutOfBounds"
  by (simp add: apply_move_def)

lemma apply_move_occupied:
  "c < 3 \<Longrightarrow> r < 3 \<Longrightarrow> g ! cell_index c r \<noteq> None_cell \<Longrightarrow>
   apply_move g m c r = Inl AlreadyChanged"
  by (simp add: apply_move_def)

lemma apply_move_accepted:
  "c < 3 \<Longrightarrow> r < 3 \<Longrightarrow> g ! cell_index c r = None_cell \<Longrightarrow>
   apply_move g m c r = Inr (outcome (g[cell_index c r := m]) m, g[cell_index c r := m])"
  by (simp add: apply_move_def)

lemma apply_move_Inr_iff:
  "apply_move g m c r = Inr (s, g') \<longleftrightarrow>
   c < 3 \<and> r < 3 \<and> g ! cell_index c r = None_cell \<and>
   g' = g[cell_index c r := m] \<and> s = outcome g' m"
  by (auto simp: apply_move_def)

lemma apply_move_length: "apply_move g m c r = Inr (s, g') \<Longrightarrow> length g' = length g"
  by (auto simp: apply_move_Inr_iff)

end
