(* ===== verification/TTT_Play.thy ===== *)
theory TTT_Play
  imports TTT_Rules
begin

text \<open>
  The game as a state machine over the rules of \<open>TTT_Rules\<close>: the specification's
  lifecycle of a board (section 3 and section 4.1, "State machine"), with the
  player to move added. It models no code; the turn loop of \<open>TTT_Game\<close> is proved
  to follow it.

  \<^item> A \<open>position\<close> is the grid, the player to move and the status of the game.
  \<^item> \<open>play p c r\<close> is a request to mark column \<open>c\<close>, row \<open>r\<close>: ignored when the game
    has ended or the rules reject the move, otherwise the mark of the player to
    move is placed, the status evaluated and the turn passed.
  \<^item> \<open>reached n p\<close>: the position \<open>p\<close> arises from \<open>start\<close> by \<open>n\<close> accepted moves.
  \<^item> \<open>legal p\<close> is the invariant: nine cells; \<open>X\<close> has as many marks as \<open>O_cell\<close>
    when \<open>X\<close> is to move and one more otherwise; while the game is in progress
    nobody has a line and a cell is free; an ended game has the winner's line and
    no line of the loser, or a full grid without a line.

  The lemmas show that \<open>legal\<close> holds in every reached position, that the
  number of accepted moves is the number of marks, hence at most nine, and that the
  ninth accepted move ends the game.
\<close>

record position =
  squares :: grid
  to_move :: BoardCell
  status :: GameState

definition start :: position where
  "start = \<lparr>squares = empty_grid, to_move = X, status = InProgress\<rparr>"

definition play :: "position \<Rightarrow> nat \<Rightarrow> nat \<Rightarrow> position" where
  "play p c r =
     (case status p of
        End w \<Rightarrow> p
      | InProgress \<Rightarrow>
          (case apply_move (squares p) (to_move p) c r of
             Inl e \<Rightarrow> p
           | Inr (s, g) \<Rightarrow> \<lparr>squares = g, to_move = other (to_move p), status = s\<rparr>))"

definition accepts :: "position \<Rightarrow> nat \<Rightarrow> nat \<Rightarrow> bool" where
  "accepts p c r \<longleftrightarrow>
     status p = InProgress \<and> c < 3 \<and> r < 3 \<and> squares p ! cell_index c r = None_cell"

fun play_all :: "position \<Rightarrow> (nat \<times> nat) list \<Rightarrow> position" where
  "play_all p [] = p"
| "play_all p ((c, r) # rest) = play_all (play p c r) rest"

inductive reached :: "nat \<Rightarrow> position \<Rightarrow> bool" where
  reached_start: "reached 0 start"
| reached_move: "reached n p \<Longrightarrow> accepts p c r \<Longrightarrow> reached (Suc n) (play p c r)"

definition legal :: "position \<Rightarrow> bool" where
  "legal p \<longleftrightarrow>
     length (squares p) = 9 \<and> is_mark (to_move p) \<and>
     count_list (squares p) X =
       count_list (squares p) O_cell + (if to_move p = O_cell then 1 else 0) \<and>
     (case status p of
        InProgress \<Rightarrow>
          \<not> wins (squares p) X \<and> \<not> wins (squares p) O_cell \<and> \<not> full (squares p)
      | End w \<Rightarrow>
          if is_mark w
          then wins (squares p) w \<and> \<not> wins (squares p) (other w) \<and> to_move p = other w
          else full (squares p) \<and> \<not> wins (squares p) X \<and> \<not> wins (squares p) O_cell)"

inductive_cases reached_0E: "reached 0 p"
inductive_cases reached_SucE: "reached (Suc n) p"

lemmas play_defs = start_def play_def accepts_def legal_def

lemmas [exec_eval] = play_defs

subsection \<open>One request\<close>

lemma play_ended [simp]: "status p = End w \<Longrightarrow> play p c r = p"
  by (simp add: play_def)

lemma play_rejected: "\<not> accepts p c r \<Longrightarrow> play p c r = p"
  by (auto simp: play_def accepts_def apply_move_def not_less split: GameState.splits)

lemma play_accepted:
  "accepts p c r \<Longrightarrow>
   play p c r =
     \<lparr>squares = (squares p)[cell_index c r := to_move p], to_move = other (to_move p),
      status = outcome ((squares p)[cell_index c r := to_move p]) (to_move p)\<rparr>"
  by (simp add: play_def accepts_def apply_move_accepted)

lemma accepts_iff_apply_move:
  "accepts p c r \<longleftrightarrow>
     status p = InProgress \<and> (\<exists>s g. apply_move (squares p) (to_move p) c r = Inr (s, g))"
  by (auto simp: accepts_def apply_move_def not_le)

lemma play_all_append: "play_all p (ms @ ns) = play_all (play_all p ms) ns"
  by (induction ms arbitrary: p) auto

lemma play_all_ended [simp]: "status p = End w \<Longrightarrow> play_all p ms = p"
  by (induction ms) auto

subsection \<open>The invariant\<close>

lemma legal_start: "legal start"
  by (simp add: legal_def start_def not_wins_empty_grid)
    (simp add: empty_grid_eq)

lemma legal_accepted:
  assumes "legal p" and "accepts p c r"
  shows "legal (play p c r)"
proof -
  let ?k = "cell_index c r" and ?m = "to_move p"
  let ?g = "(squares p)[cell_index c r := to_move p]"
  from assms(2) have k: "?k < 9" and empty: "squares p ! ?k = None_cell"
    and run: "status p = InProgress"
    by (simp_all add: accepts_def cell_index_less)
  from assms(1) have len: "length (squares p) = 9" and m: "is_mark ?m"
    and cnt: "count_list (squares p) X =
      count_list (squares p) O_cell + (if ?m = O_cell then 1 else 0)"
    by (simp_all add: legal_def)
  from assms(1) run have nowin: "\<not> wins (squares p) X" "\<not> wins (squares p) O_cell"
    by (simp_all add: legal_def)
  from m have mo: "other ?m \<noteq> ?m" by (auto simp: is_mark_iff)
  from m nowin have "\<not> wins (squares p) (other ?m)"
    by (auto dest!: is_mark_cases)
  with k len mo have other: "\<not> wins ?g (other ?m)"
    by (auto dest: wins_other_after_move [rotated 2])
  from k len empty have cX: "count_list ?g X = (if ?m = X then Suc (count_list (squares p) X)
      else count_list (squares p) X)"
    and cO: "count_list ?g O_cell = (if ?m = O_cell then Suc (count_list (squares p) O_cell)
      else count_list (squares p) O_cell)"
    by (simp_all add: count_list_update)
  have st: "case outcome ?g ?m of
      InProgress \<Rightarrow> \<not> wins ?g X \<and> \<not> wins ?g O_cell \<and> \<not> full ?g
    | End w \<Rightarrow>
        if is_mark w then wins ?g w \<and> \<not> wins ?g (other w) \<and> other ?m = other w
        else full ?g \<and> \<not> wins ?g X \<and> \<not> wins ?g O_cell"
    using m other by (auto simp: outcome_def dest!: is_mark_cases)
  from m cnt cX cO have "count_list ?g X =
      count_list ?g O_cell + (if other ?m = O_cell then 1 else 0)"
    by (auto dest!: is_mark_cases)
  with len m st show ?thesis
    by (simp add: play_accepted [OF assms(2)] legal_def split: GameState.splits)
qed

lemma legal_play: "legal p \<Longrightarrow> legal (play p c r)"
  by (cases "accepts p c r") (simp_all add: legal_accepted play_rejected)

lemma legal_play_all: "legal p \<Longrightarrow> legal (play_all p ms)"
  by (induction ms arbitrary: p) (auto simp: legal_play)

lemma reached_legal: "reached n p \<Longrightarrow> legal p"
  by (induction rule: reached.induct) (simp_all add: legal_start legal_accepted)

subsection \<open>Counting the moves\<close>

lemma marks_accepted:
  assumes "legal p" and "accepts p c r"
  shows "marks (squares (play p c r)) = Suc (marks (squares p))"
  using assms
  by (simp add: play_accepted marks_update legal_def accepts_def cell_index_less)

lemma reached_marks: "reached n p \<Longrightarrow> marks (squares p) = n"
proof (induction rule: reached.induct)
  case reached_start
  show ?case by (simp add: start_def)
next
  case (reached_move n p c r)
  then show ?case by (simp add: marks_accepted reached_legal)
qed

lemma legal_marks_le: "legal p \<Longrightarrow> marks (squares p) \<le> 9"
  using marks_le_length [of "squares p"] by (simp add: legal_def)

lemma legal_in_progress_marks: "legal p \<Longrightarrow> status p = InProgress \<Longrightarrow> marks (squares p) < 9"
  using marks_le_length [of "squares p"] by (auto simp: legal_def full_iff_marks)

lemma legal_in_progress_free_cell:
  assumes "legal p" and "status p = InProgress"
  shows "\<exists>c r. accepts p c r"
proof -
  from assms have "None_cell \<in> set (squares p)" and len: "length (squares p) = 9"
    by (auto simp: legal_def full_iff)
  then obtain k where k: "k < 9" "squares p ! k = None_cell"
    by (auto simp: in_set_conv_nth)
  then obtain c r where "c < 3" "r < 3" "k = cell_index c r"
    by (auto dest: cell_index_surj)
  with k assms(2) show ?thesis by (auto simp: accepts_def)
qed

end
