(* ===== verification/TTT_Board.thy ===== *)
theory TTT_Board
  imports TTT_Rules
begin

text \<open>
  The board of \<^verbatim>\<open>src/src/main.rs\<close>: the struct \<^verbatim>\<open>TicTacToeBoard\<close> (lines 32-34) and
  its methods (lines 40-99), translated statement by statement.

  \<^item> \<open>TicTacToeBoard\<close> is the record with the one field \<open>cells\<close>. The array type
    \<^verbatim>\<open>[BoardCell; 9]\<close> is a list together with the invariant \<open>wf_board\<close> (length 9).
  \<^item> \<open>fmt_TicTacToeBoard\<close> is \<^verbatim>\<open>Display::fmt\<close> of the board: the nine cells are read
    in order and put into the holes of the format string, whose literal pieces are
    \<open>board_template\<close>.
  \<^item> \<open>default_board\<close> is \<^verbatim>\<open>Default::default\<close>; \<open>isFull_loop\<close> the \<^verbatim>\<open>for\<close> loop of
    \<^verbatim>\<open>isFull\<close> with its flag and its \<^verbatim>\<open>break\<close>; \<open>cell_is\<close> one comparison
    \<^verbatim>\<open>self.cells[i] == cellState\<close>; \<open>checkVertical\<close>, \<open>checkHorizontal\<close> and \<open>changeState\<close>
    the methods of these names.
  \<^item> Every array access and every addition or multiplication on \<open>usize\<close> may panic,
    so the methods return \<open>'a exec\<close>. \<open>changeState\<close> returns the \<^verbatim>\<open>Result\<close> of the
    program together with the board after the call.

  What is proved: on a well-formed board no call panics, whatever the arguments
  (\<open>changeState_no_panic\<close>); each branch of \<open>changeState\<close> returns what the rules of
  \<open>TTT_Rules\<close> prescribe (\<open>changeState_out_of_bounds\<close>, \<open>changeState_occupied\<close>,
  \<open>changeState_accepted\<close>); the whole method is \<open>apply_move\<close> of the rules when the
  mover has no line yet (\<open>changeState_refines\<close>); \<open>wf_board\<close> is kept.
\<close>

record TicTacToeBoard =
  cells :: "BoardCell list"

definition board_template :: "string list" where
  "board_template =
     ['''', ''|'', ''|'', ''\<newline>-+-+-\<newline>'', ''|'', ''|'', ''\<newline>-+-+-\<newline>'', ''|'', ''|'',
      ''\<newline>'']"

definition fmt_TicTacToeBoard :: "TicTacToeBoard \<Rightarrow> string exec" where
  "fmt_TicTacToeBoard self =
     pbind (exec_list (map (index_at (cells self)) [0, 1, 2, 3, 4, 5, 6, 7, 8])) (\<lambda>args.
       Inr (format_args board_template (map fmt_BoardCell args)))"

definition default_board :: TicTacToeBoard where
  "default_board = \<lparr>cells = replicate 9 None_cell\<rparr>"

definition wf_board :: "TicTacToeBoard \<Rightarrow> bool" where
  "wf_board self \<longleftrightarrow> length (cells self) = 9"

fun isFull_loop :: "BoardCell list \<Rightarrow> bool \<Rightarrow> bool" where
  "isFull_loop [] boardFull = boardFull"
| "isFull_loop (cell # rest) boardFull =
     (if cell = None_cell then False else isFull_loop rest boardFull)"

definition isFull :: "TicTacToeBoard \<Rightarrow> bool" where
  "isFull self = isFull_loop (cells self) True"

definition cell_is :: "TicTacToeBoard \<Rightarrow> usize \<Rightarrow> BoardCell \<Rightarrow> bool exec" where
  "cell_is self i cellState =
     pbind (index_at (cells self) i) (\<lambda>cell. Inr (cell = cellState))"

definition checkVertical :: "TicTacToeBoard \<Rightarrow> BoardCell \<Rightarrow> usize \<Rightarrow> bool exec" where
  "checkVertical self cellState x =
     and_also
       (and_also (cell_is self x cellState)
          (pbind (usize_add x 3) (\<lambda>i. cell_is self i cellState)))
       (pbind (usize_add x 6) (\<lambda>i. cell_is self i cellState))"

definition checkHorizontal :: "TicTacToeBoard \<Rightarrow> BoardCell \<Rightarrow> usize \<Rightarrow> bool exec" where
  "checkHorizontal self cellState y =
     pbind (usize_mul 3 y) (\<lambda>x.
       and_also
         (and_also (cell_is self x cellState)
            (pbind (usize_add x 1) (\<lambda>i. cell_is self i cellState)))
         (pbind (usize_add x 2) (\<lambda>i. cell_is self i cellState)))"

definition changeState ::
  "TicTacToeBoard \<Rightarrow> BoardCell \<Rightarrow> usize \<times> usize \<Rightarrow>
     ((BoardError + GameState) \<times> TicTacToeBoard) exec" where
  "changeState self cellState xy =
     (case xy of (x, y) \<Rightarrow>
        if 3 \<le> x \<or> 3 \<le> y then Inr (Inl OutOfBounds, self)
        else
          pbind (usize_mul 3 y) (\<lambda>t.
          pbind (usize_add x t) (\<lambda>index.
          pbind (index_at (cells self) index) (\<lambda>cell.
            case cell of
              None_cell \<Rightarrow>
                pbind (store_at (cells self) index cellState) (\<lambda>cs.
                let self' = self\<lparr>cells := cs\<rparr> in
                pbind (checkVertical self' cellState x) (\<lambda>vertical.
                if vertical then Inr (Inr (End cellState), self')
                else
                pbind (checkHorizontal self' cellState y) (\<lambda>horizontal.
                if horizontal then Inr (Inr (End cellState), self')
                else
                pbind (and_also (and_also (cell_is self' 0 cellState) (cell_is self' 4 cellState))
                         (cell_is self' 8 cellState)) (\<lambda>diagonal_0_8.
                if diagonal_0_8 then Inr (Inr (End cellState), self')
                else
                pbind (and_also (and_also (cell_is self' 2 cellState) (cell_is self' 4 cellState))
                         (cell_is self' 6 cellState)) (\<lambda>diagonal_2_6.
                if diagonal_2_6 then Inr (Inr (End cellState), self')
                else if isFull self' then Inr (Inr (End None_cell), self')
                else Inr (Inr InProgress, self'))))))
            | _ \<Rightarrow> Inr (Inl AlreadyChanged, self)))))"

definition board_result ::
  "TicTacToeBoard \<Rightarrow> BoardError + GameState \<times> grid \<Rightarrow>
     (BoardError + GameState) \<times> TicTacToeBoard" where
  "board_result self r =
     (case r of Inl e \<Rightarrow> (Inl e, self) | Inr (s, g) \<Rightarrow> (Inr s, self\<lparr>cells := g\<rparr>))"

lemmas board_defs =
  wf_board_def isFull_def cell_is_def checkVertical_def checkHorizontal_def
  changeState_def board_result_def board_template_def fmt_TicTacToeBoard_def

lemmas [exec_eval] = board_defs

subsection \<open>The empty board and the invariant\<close>

lemma wf_default_board [simp]: "wf_board default_board"
  by (simp add: wf_board_def default_board_def)

lemma cells_default_board: "cells default_board = empty_grid"
  by (simp add: default_board_def empty_grid_def)

lemma default_board_eq [exec_eval]:
  "default_board =
     \<lparr>cells = [None_cell, None_cell, None_cell, None_cell, None_cell, None_cell,
               None_cell, None_cell, None_cell]\<rparr>"
  by (simp add: default_board_def numeral_eq_Suc)

lemma wf_board_update [simp]:
  "wf_board (self\<lparr>cells := (cells self)[k := m]\<rparr>) = wf_board self"
  by (simp add: wf_board_def)

lemma wf_boardE:
  assumes "wf_board self"
  obtains a b c d e f g h i where "cells self = [a, b, c, d, e, f, g, h, i]"
  using assms unfolding wf_board_def by (rule length_9_cases)

subsection \<open>Printing the board\<close>

lemma fmt_TicTacToeBoard_ok [exec_ok]:
  assumes "wf_board self"
  shows "fmt_TicTacToeBoard self = Inr (render (cells self))"
  using assms
proof (rule wf_boardE)
  fix a b c d e f g h i
  assume "cells self = [a, b, c, d, e, f, g, h, i]"
  then show ?thesis
    by (simp add: fmt_TicTacToeBoard_def index_at_def board_template_def render_9)
qed

lemma fmt_TicTacToeBoard_panic:
  "length (cells self) < 9 \<Longrightarrow> \<not> no_panic (fmt_TicTacToeBoard self)"
proof -
  assume "length (cells self) < 9"
  then have "\<not> no_panic (index_at (cells self) 8)"
    by (simp add: index_at_def)
  then have "\<not> no_panic (exec_list (map (index_at (cells self)) [0, 1, 2, 3, 4, 5, 6, 7, 8]))"
    by (simp add: exec_list_no_panic del: exec_list.simps)
  then show ?thesis
    by (auto simp: fmt_TicTacToeBoard_def no_panic_pbind simp del: exec_list.simps)
qed

subsection \<open>The loop of \<open>isFull\<close>\<close>

lemma isFull_loop_iff: "isFull_loop cs boardFull \<longleftrightarrow> boardFull \<and> None_cell \<notin> set cs"
  by (induction cs) auto

lemma isFull_iff_full: "isFull self \<longleftrightarrow> full (cells self)"
  by (simp add: isFull_def isFull_loop_iff full_iff)

lemma isFull_loop_break: "None_cell \<in> set cs \<Longrightarrow> isFull_loop (cs @ rest) boardFull = False"
  by (simp add: isFull_loop_iff)

subsection \<open>The line checks\<close>

lemma cell_is_ok [exec_ok]:
  "unat i < length (cells self) \<Longrightarrow> cell_is self i m = Inr (cells self ! unat i = m)"
  by (simp add: cell_is_def index_at_ok)

lemma cell_is_panic:
  "length (cells self) \<le> unat i \<Longrightarrow> cell_is self i m = Inl IndexOutOfBounds"
  by (simp add: cell_is_def index_at_out_of_bounds)

lemma checkVertical_ok [exec_ok]:
  assumes "wf_board self" "unat x < 3"
  shows "checkVertical self m x = Inr (line_complete (cells self) m (column_line (unat x)))"
proof -
  from assms(2) have "usize_add x 3 = Inr (x + 3)" "usize_add x 6 = Inr (x + 6)"
    and "unat (x + 3) = unat x + 3" "unat (x + 6) = unat x + 6"
    by (simp_all add: usize_add_ok unat_usize_add)
  with assms show ?thesis
    by (simp add: checkVertical_def cell_is_ok wf_board_def and_also_Inr
        line_complete_def column_line_def)
qed

lemma checkHorizontal_ok [exec_ok]:
  assumes "wf_board self" "unat y < 3"
  shows "checkHorizontal self m y = Inr (line_complete (cells self) m (row_line (unat y)))"
proof -
  from assms(2) have "usize_mul 3 y = Inr (3 * y)" and y3: "unat (3 * y) = 3 * unat y"
    by (simp_all add: usize_mul_ok unat_usize_mul)
  moreover from assms(2) y3
  have "usize_add (3 * y) 1 = Inr (3 * y + 1)" "usize_add (3 * y) 2 = Inr (3 * y + 2)"
    and "unat (3 * y + 1) = 3 * unat y + 1" "unat (3 * y + 2) = 3 * unat y + 2"
    by (simp_all add: usize_add_ok unat_usize_add)
  ultimately show ?thesis
    using assms
    by (simp add: checkHorizontal_def cell_is_ok wf_board_def and_also_Inr
        line_complete_def row_line_def)
qed

lemma diagonal_ok [exec_ok]:
  assumes "wf_board self"
  shows "and_also (and_also (cell_is self 0 m) (cell_is self 4 m)) (cell_is self 8 m) =
      Inr (line_complete (cells self) m diag_main)"
    and "and_also (and_also (cell_is self 2 m) (cell_is self 4 m)) (cell_is self 6 m) =
      Inr (line_complete (cells self) m diag_anti)"
  using assms
  by (simp_all add: cell_is_ok wf_board_def and_also_Inr line_complete_def diag_main_def
      diag_anti_def)

subsection \<open>Coordinates of a move\<close>

lemma move_index:
  assumes "unat x < 3" "unat y < 3"
  shows "usize_mul 3 y = Inr (3 * y)" "usize_add x (3 * y) = Inr (x + 3 * y)"
    "unat (x + 3 * y) = cell_index (unat x) (unat y)"
proof -
  from assms(2) show "usize_mul 3 y = Inr (3 * y)"
    by (simp add: usize_mul_ok)
  from assms(2) have y3: "unat (3 * y) = 3 * unat y"
    by (simp add: unat_usize_mul)
  with assms show "usize_add x (3 * y) = Inr (x + 3 * y)"
    by (simp add: usize_add_ok)
  from assms y3 show "unat (x + 3 * y) = cell_index (unat x) (unat y)"
    by (simp add: unat_usize_add cell_index_def)
qed

lemma in_range_iff:
  "\<not> (3 \<le> (x::usize) \<or> 3 \<le> (y::usize)) \<longleftrightarrow> unat x < 3 \<and> unat y < 3"
  by (auto simp: usize_ge_3_iff)

subsection \<open>The branches of \<open>changeState\<close>\<close>

lemma changeState_out_of_bounds:
  "3 \<le> x \<or> 3 \<le> y \<Longrightarrow> changeState self m (x, y) = Inr (Inl OutOfBounds, self)"
  by (simp add: changeState_def)

lemma changeState_occupied:
  assumes "wf_board self" "x < 3" "y < 3"
    and "cells self ! cell_index (unat x) (unat y) \<noteq> None_cell"
  shows "changeState self m (x, y) = Inr (Inl AlreadyChanged, self)"
proof -
  from assms(2,3) have xy: "unat x < 3" "unat y < 3"
    by (simp_all add: usize_lt_3_iff)
  then have "unat (x + 3 * y) < length (cells self)"
    using assms(1) by (simp add: move_index wf_board_def cell_index_less)
  with xy assms(4) show ?thesis
    by (cases "cells self ! cell_index (unat x) (unat y)")
      (simp_all add: changeState_def usize_ge_3_iff move_index index_at_ok)
qed

lemma changeState_accepted:
  assumes "wf_board self" "x < 3" "y < 3"
    and "cells self ! cell_index (unat x) (unat y) = None_cell"
  shows "changeState self m (x, y) =
    Inr (Inr (local_outcome ((cells self)[cell_index (unat x) (unat y) := m]) m (unat x) (unat y)),
         self\<lparr>cells := (cells self)[cell_index (unat x) (unat y) := m]\<rparr>)"
proof -
  from assms(2,3) have xy: "unat x < 3" "unat y < 3"
    by (simp_all add: usize_lt_3_iff)
  then have "unat (x + 3 * y) < length (cells self)"
    using assms(1) by (simp add: move_index wf_board_def cell_index_less)
  with xy assms(1,4) show ?thesis
    by (simp add: changeState_def usize_ge_3_iff move_index index_at_ok store_at_ok
        Let_def checkVertical_ok checkHorizontal_ok diagonal_ok isFull_iff_full
        local_outcome_def local_win_def)
qed

lemmas changeState_branches =
  changeState_out_of_bounds changeState_occupied changeState_accepted

lemma changeState_cases [consumes 1, case_names out_of_bounds occupied accepted]:
  assumes "wf_board self"
  obtains "3 \<le> x \<or> 3 \<le> y"
      and "changeState self m (x, y) = Inr (Inl OutOfBounds, self)"
  | "x < 3" and "y < 3" and "cells self ! cell_index (unat x) (unat y) \<noteq> None_cell"
      and "changeState self m (x, y) = Inr (Inl AlreadyChanged, self)"
  | "x < 3" and "y < 3" and "cells self ! cell_index (unat x) (unat y) = None_cell"
      and "changeState self m (x, y) =
        Inr (Inr (local_outcome ((cells self)[cell_index (unat x) (unat y) := m]) m
                   (unat x) (unat y)),
             self\<lparr>cells := (cells self)[cell_index (unat x) (unat y) := m]\<rparr>)"
proof (cases "3 \<le> x \<or> 3 \<le> y")
  case True
  then show thesis by (rule that(1)) (simp add: changeState_out_of_bounds True)
next
  case False
  then have xy: "x < 3" "y < 3" by (simp_all add: not_le)
  show thesis
  proof (cases "cells self ! cell_index (unat x) (unat y) = None_cell")
    case True
    with assms xy show thesis by (intro that(3) changeState_accepted)
  next
    case False
    with assms xy show thesis by (intro that(2) changeState_occupied)
  qed
qed

lemma board_result_simps [simp]:
  "board_result self (Inl e) = (Inl e, self)"
  "board_result self (Inr (s, g)) = (Inr s, self\<lparr>cells := g\<rparr>)"
  by (simp_all add: board_result_def)

lemma changeState_local:
  assumes "wf_board self"
  shows "changeState self m (x, y) =
    Inr (if 3 \<le> x \<or> 3 \<le> y then (Inl OutOfBounds, self)
         else if cells self ! cell_index (unat x) (unat y) \<noteq> None_cell
         then (Inl AlreadyChanged, self)
         else (Inr (local_outcome ((cells self)[cell_index (unat x) (unat y) := m]) m
                      (unat x) (unat y)),
               self\<lparr>cells := (cells self)[cell_index (unat x) (unat y) := m]\<rparr>))"
  using assms
  by (cases rule: changeState_cases [where x = x and y = y and m = m]) (auto simp: not_le)

lemma changeState_returns:
  "wf_board b \<Longrightarrow> \<exists>res b'. changeState b m (x, y) = Inr (res, b') \<and> wf_board b'"
  by (simp add: changeState_local wf_board_def)

lemma changeState_Ok_iff:
  assumes "wf_board self"
  shows "changeState self m (x, y) = Inr (Inr s, self') \<longleftrightarrow>
    x < 3 \<and> y < 3 \<and> cells self ! cell_index (unat x) (unat y) = None_cell \<and>
    self' = self\<lparr>cells := (cells self)[cell_index (unat x) (unat y) := m]\<rparr> \<and>
    s = local_outcome (cells self') m (unat x) (unat y)"
  using assms by (auto simp: changeState_local not_le)

lemma changeState_Err_iff:
  assumes "wf_board self"
  shows "changeState self m (x, y) = Inr (Inl e, self') \<longleftrightarrow>
    self' = self \<and>
    (if 3 \<le> x \<or> 3 \<le> y then e = OutOfBounds
     else e = AlreadyChanged \<and> cells self ! cell_index (unat x) (unat y) \<noteq> None_cell)"
  using assms by (auto simp: changeState_local)

lemma local_outcome_End_iff:
  "is_mark m \<Longrightarrow> local_outcome g m c r = End m \<longleftrightarrow> local_win g m c r"
  by (auto simp: local_outcome_def)

lemma outcome_End_iff: "is_mark m \<Longrightarrow> outcome g m = End m \<longleftrightarrow> wins g m"
  by (auto simp: outcome_def)

lemma outcome_draw_iff:
  "is_mark m \<Longrightarrow> outcome g m = End None_cell \<longleftrightarrow> full g \<and> \<not> wins g m"
  by (auto simp: outcome_def)

lemma outcome_InProgress_iff: "outcome g m = InProgress \<longleftrightarrow> \<not> full g \<and> \<not> wins g m"
  by (auto simp: outcome_def)

lemma changeState_Ok_outcome:
  assumes "wf_board self" "\<not> wins (cells self) m"
    and "changeState self m (x, y) = Inr (Inr s, self')"
  shows "s = outcome (cells self') m"
  using assms by (auto simp: changeState_Ok_iff usize_lt_3_iff outcome_eq_local_outcome)

section \<open>Properties of the board\<close>

text \<open>
  C1 (refinement). On a well-formed board on which the mover has no complete line,
  \<open>changeState\<close> does not panic and computes exactly the move of the rules,
  \<open>apply_move\<close>, at the coordinates read as natural numbers: the same rejection, or
  the same new grid and the same outcome.
\<close>

theorem changeState_refines:
  assumes "wf_board self" and "\<not> wins (cells self) m"
  shows "changeState self m (x, y) =
    Inr (board_result self (apply_move (cells self) m (unat x) (unat y)))"
proof -
  have "local_outcome ((cells self)[cell_index (unat x) (unat y) := m]) m (unat x) (unat y) =
      outcome ((cells self)[cell_index (unat x) (unat y) := m]) m"
    if "unat x < 3" "unat y < 3"
    using that assms(2) by (simp add: outcome_eq_local_outcome)
  with assms(1) show ?thesis
    by (auto simp: changeState_local apply_move_def usize_ge_3_iff not_le)
qed

theorem changeState_refines_witness:
  "wf_board default_board \<and> \<not> wins (cells default_board) X \<and>
   changeState default_board X (1, 1) =
     Inr (Inr InProgress,
          \<lparr>cells = [None_cell, None_cell, None_cell, None_cell, X, None_cell,
                    None_cell, None_cell, None_cell]\<rparr>)"
  using changeState_refines [of default_board X 1 1]
  by (simp add: exec_eval)

text \<open>
  C9 (safety). On a well-formed board \<open>changeState\<close> never panics, whatever mark and
  whatever coordinates it is given: no index is out of range and no addition or
  multiplication on \<open>usize\<close> overflows.
\<close>

theorem changeState_no_panic:
  "wf_board self \<Longrightarrow> no_panic (changeState self m (x, y))"
  by (simp add: changeState_local)

theorem changeState_no_panic_witness:
  "wf_board default_board \<and>
   no_panic (changeState default_board O_cell (2, 18446744073709551615))"
  using changeState_no_panic [of default_board O_cell 2 18446744073709551615]
  by simp

text \<open>
  C4 (equivalence). The four checks \<open>changeState\<close> makes after placing a mark (the
  column and the row of the move, then the two diagonals) find a line exactly when
  one of the eight lines of the rules is complete: an accepted move of a player
  without a line returns \<open>End\<close> of that player if and only if the player now has a
  complete line on the board.
\<close>

theorem win_detected_iff:
  assumes "wf_board self" and "\<not> wins (cells self) m" and "is_mark m"
    and "changeState self m (x, y) = Inr (Inr s, self')"
  shows "s = End m \<longleftrightarrow> wins (cells self') m"
  using changeState_Ok_outcome [OF assms(1,2,4)] assms(3) by (simp add: outcome_End_iff)

theorem win_detected_iff_witness:
  "wf_board \<lparr>cells = [X, X, None_cell, O_cell, O_cell, None_cell, None_cell, None_cell,
     None_cell]\<rparr> \<and>
   changeState \<lparr>cells = [X, X, None_cell, O_cell, O_cell, None_cell, None_cell, None_cell,
     None_cell]\<rparr> X (2, 0) =
     Inr (Inr (End X), \<lparr>cells = [X, X, X, O_cell, O_cell, None_cell, None_cell, None_cell,
       None_cell]\<rparr>) \<and>
   wins [X, X, X, O_cell, O_cell, None_cell, None_cell, None_cell, None_cell] X"
  using win_detected_iff [of "\<lparr>cells = [X, X, None_cell, O_cell, O_cell, None_cell, None_cell,
      None_cell, None_cell]\<rparr>" X 2 0 "End X"
      "\<lparr>cells = [X, X, X, O_cell, O_cell, None_cell, None_cell, None_cell, None_cell]\<rparr>"]
  by (simp add: exec_eval)

text \<open>
  C12 (error). \<open>changeState\<close> returns \<open>OutOfBounds\<close> exactly when a coordinate is 3 or
  more, and then the board it leaves is the board it was given.
\<close>

theorem OutOfBounds_iff:
  assumes "wf_board self"
  shows "changeState self m (x, y) = Inr (Inl OutOfBounds, self') \<longleftrightarrow>
    self' = self \<and> (3 \<le> x \<or> 3 \<le> y)"
  using assms by (auto simp: changeState_Err_iff)

theorem OutOfBounds_iff_witness:
  "wf_board default_board \<and>
   changeState default_board X (3, 0) = Inr (Inl OutOfBounds, default_board)"
  using OutOfBounds_iff [of default_board X 3 0 default_board]
  by (simp add: usize_ge_3_iff)

text \<open>
  C13 (error). \<open>changeState\<close> returns \<open>AlreadyChanged\<close> exactly when both coordinates
  are in range and the addressed cell holds a mark, whoever placed it, and then the
  board is unchanged.
\<close>

theorem AlreadyChanged_iff:
  assumes "wf_board self"
  shows "changeState self m (x, y) = Inr (Inl AlreadyChanged, self') \<longleftrightarrow>
    self' = self \<and> x < 3 \<and> y < 3 \<and> cells self ! cell_index (unat x) (unat y) \<noteq> None_cell"
  using assms by (auto simp: changeState_Err_iff not_le)

theorem AlreadyChanged_iff_witness:
  "wf_board \<lparr>cells = [X, None_cell, None_cell, None_cell, None_cell, None_cell, None_cell,
     None_cell, None_cell]\<rparr> \<and>
   changeState \<lparr>cells = [X, None_cell, None_cell, None_cell, None_cell, None_cell, None_cell,
     None_cell, None_cell]\<rparr> O_cell (0, 0) =
     Inr (Inl AlreadyChanged, \<lparr>cells = [X, None_cell, None_cell, None_cell, None_cell,
       None_cell, None_cell, None_cell, None_cell]\<rparr>)"
  using AlreadyChanged_iff [of "\<lparr>cells = [X, None_cell, None_cell, None_cell, None_cell,
      None_cell, None_cell, None_cell, None_cell]\<rparr>" O_cell 0 0
      "\<lparr>cells = [X, None_cell, None_cell, None_cell, None_cell, None_cell, None_cell,
      None_cell, None_cell]\<rparr>"]
  by (simp add: exec_eval)



text \<open>
  C29 (functional). An accepted move changes exactly one cell: the addressed cell
  was empty and now holds the mark, every other cell is as before, and the number
  of marks on the board has grown by one.
\<close>

theorem changeState_places_one_mark:
  assumes "wf_board self" and "is_mark m"
    and "changeState self m (x, y) = Inr (Inr s, self')"
  shows "cells self ! cell_index (unat x) (unat y) = None_cell \<and>
    cells self' = (cells self)[cell_index (unat x) (unat y) := m] \<and>
    marks (cells self') = Suc (marks (cells self))"
proof -
  from assms(1,3) have xy: "unat x < 3" "unat y < 3"
    and empty: "cells self ! cell_index (unat x) (unat y) = None_cell"
    and new: "cells self' = (cells self)[cell_index (unat x) (unat y) := m]"
    by (simp_all add: changeState_Ok_iff usize_lt_3_iff)
  from xy assms(1) have "cell_index (unat x) (unat y) < length (cells self)"
    by (simp add: wf_board_def cell_index_less)
  with empty new assms(2) show ?thesis by (simp add: marks_update)
qed

theorem changeState_places_one_mark_witness:
  "wf_board default_board \<and> is_mark X \<and>
   changeState default_board X (1, 1) =
     Inr (Inr InProgress,
          \<lparr>cells = [None_cell, None_cell, None_cell, None_cell, X, None_cell,
                    None_cell, None_cell, None_cell]\<rparr>) \<and>
   marks [None_cell, None_cell, None_cell, None_cell, X, None_cell,
          None_cell, None_cell, None_cell] = Suc (marks (cells default_board))"
  using changeState_places_one_mark [of default_board X 1 1 InProgress
      "\<lparr>cells = [None_cell, None_cell, None_cell, None_cell, X, None_cell,
                    None_cell, None_cell, None_cell]\<rparr>"]
  by (simp add: exec_eval)

text \<open>
  After an accepted move, a second call at the same coordinates is
  rejected with \<open>AlreadyChanged\<close>, whichever mark it carries, and leaves the board
  as the first call left it.
\<close>

lemma changeState_twice:
  assumes "wf_board self" and "is_mark m"
    and "changeState self m (x, y) = Inr (Inr s, self')"
  shows "changeState self' m' (x, y) = Inr (Inl AlreadyChanged, self')"
proof -
  from assms(1,3) have xy: "x < 3" "y < 3"
    and new: "self' = self\<lparr>cells := (cells self)[cell_index (unat x) (unat y) := m]\<rparr>"
    by (simp_all add: changeState_Ok_iff)
  from xy assms(1) have "cell_index (unat x) (unat y) < length (cells self)"
    by (simp add: wf_board_def cell_index_less usize_lt_3_iff)
  with new assms(2) have "cells self' ! cell_index (unat x) (unat y) \<noteq> None_cell"
    by (auto simp: is_mark_iff)
  moreover from new assms(1) have "wf_board self'" by simp
  ultimately show ?thesis using xy by (simp add: changeState_occupied)
qed

text \<open>
  C30 (functional). An accepted move of a player without a line returns the draw
  \<open>End None_cell\<close> exactly when the board is now full and the player still has no
  line, and \<open>InProgress\<close> exactly when the board is not full and the player has no
  line.
\<close>

theorem draw_detected_iff:
  assumes "wf_board self" and "\<not> wins (cells self) m" and "is_mark m"
    and "changeState self m (x, y) = Inr (Inr s, self')"
  shows "(s = End None_cell \<longleftrightarrow> full (cells self') \<and> \<not> wins (cells self') m) \<and>
    (s = InProgress \<longleftrightarrow> \<not> full (cells self') \<and> \<not> wins (cells self') m)"
  using changeState_Ok_outcome [OF assms(1,2,4)] assms(3)
  by (simp add: outcome_draw_iff outcome_InProgress_iff)

theorem draw_detected_iff_witness:
  "wf_board \<lparr>cells = [X, O_cell, X, X, O_cell, O_cell, O_cell, X, None_cell]\<rparr> \<and>
   changeState \<lparr>cells = [X, O_cell, X, X, O_cell, O_cell, O_cell, X, None_cell]\<rparr> X (2, 2) =
     Inr (Inr (End None_cell),
          \<lparr>cells = [X, O_cell, X, X, O_cell, O_cell, O_cell, X, X]\<rparr>) \<and>
   full [X, O_cell, X, X, O_cell, O_cell, O_cell, X, X] \<and>
   \<not> wins [X, O_cell, X, X, O_cell, O_cell, O_cell, X, X] X"
  using draw_detected_iff [of
      "\<lparr>cells = [X, O_cell, X, X, O_cell, O_cell, O_cell, X, None_cell]\<rparr>" X 2 2
      "End None_cell" "\<lparr>cells = [X, O_cell, X, X, O_cell, O_cell, O_cell, X, X]\<rparr>"]
  by (simp add: exec_eval)

text \<open>
  C31 (equivalence). The loop of \<open>isFull\<close>, which stops at the first empty cell,
  returns true exactly when no cell of the board is empty, that is, when the
  number of marks is the number of cells.
\<close>

theorem isFull_iff:
  "isFull self \<longleftrightarrow> None_cell \<notin> set (cells self) \<and> marks (cells self) = length (cells self)"
  using full_iff_marks [of "cells self"] by (auto simp: isFull_iff_full full_iff)

text \<open>
  For coordinates below 3 the index \<^verbatim>\<open>x + 3 * y\<close> is computed without
  overflow, is the cell index of the rules and is below 9; for the same coordinates
  the indices \<^verbatim>\<open>x + 6\<close> of \<open>checkVertical\<close> and \<^verbatim>\<open>3 * y + 2\<close> of \<open>checkHorizontal\<close> are
  below 9 as well.
\<close>

lemma move_index_in_bounds:
  assumes "x < 3" and "y < 3"
  shows "usize_mul 3 y = Inr (3 * y) \<and> usize_add x (3 * y) = Inr (x + 3 * y) \<and>
    unat (x + 3 * y) = cell_index (unat x) (unat y) \<and> unat (x + 3 * y) < 9 \<and>
    usize_add x 6 = Inr (x + 6) \<and> unat (x + 6) < 9 \<and>
    usize_add (3 * y) 2 = Inr (3 * y + 2) \<and> unat (3 * y + 2) < 9"
proof -
  from assms have xy: "unat x < 3" "unat y < 3"
    by (simp_all add: usize_lt_3_iff)
  then have y3: "unat (3 * y) = 3 * unat y"
    by (simp add: unat_usize_mul)
  from xy have "usize_add x 6 = Inr (x + 6)" "unat (x + 6) < 9"
    by (simp_all add: usize_add_ok unat_usize_add)
  moreover from xy y3 have "usize_add (3 * y) 2 = Inr (3 * y + 2)" "unat (3 * y + 2) < 9"
    by (simp_all add: usize_add_ok unat_usize_add)
  ultimately show ?thesis
    using xy by (simp add: move_index cell_index_less)
qed

text \<open>
  C39 (functional). \<open>changeState\<close> accepts the value \<open>None_cell\<close> as a mark. On the
  empty board such a call changes nothing and reports a draw: the column of the
  move holds \<open>None_cell\<close> three times, which the vertical check takes for a line of
  the "player" \<open>None_cell\<close>.
\<close>

theorem changeState_None_cell_mark:
  assumes "x < 3" and "y < 3"
  shows "changeState default_board None_cell (x, y) = Inr (Inr (End None_cell), default_board)"
proof -
  from assms have "unat x < 3" "unat y < 3" by (simp_all add: usize_lt_3_iff)
  then have "x = 0 \<or> x = 1 \<or> x = 2" "y = 0 \<or> y = 1 \<or> y = 2"
    by (auto dest: unat_lt_3_cases)
  then show ?thesis by (elim disjE) (simp_all add: exec_eval)
qed

theorem changeState_None_cell_mark_witness:
  "(0::usize) < 3 \<and>
   changeState default_board None_cell (0, 0) = Inr (Inr (End None_cell), default_board)"
  using changeState_None_cell_mark [of 0 0] by simp

text \<open>
  C32 (roundtrip). Printing a well-formed board does not panic and gives the 30
  characters of the grid format of the specification; reading that text back
  gives the cells of the board, so that two boards printed alike are the same
  board.
\<close>

theorem fmt_TicTacToeBoard_roundtrip:
  assumes "wf_board self"
  shows "\<exists>s. fmt_TicTacToeBoard self = Inr s \<and> length s = 30 \<and>
    read_board s = Some (cells self)"
  using assms by (simp add: fmt_TicTacToeBoard_ok wf_board_def length_render read_board_render)

theorem fmt_TicTacToeBoard_roundtrip_witness:
  "wf_board \<lparr>cells = [X, O_cell, None_cell, None_cell, X, None_cell, O_cell, None_cell, X]\<rparr> \<and>
   fmt_TicTacToeBoard
     \<lparr>cells = [X, O_cell, None_cell, None_cell, X, None_cell, O_cell, None_cell, X]\<rparr> =
     Inr ''X|O| \<newline>-+-+-\<newline> |X| \<newline>-+-+-\<newline>O| |X\<newline>'' \<and>
   read_board ''X|O| \<newline>-+-+-\<newline> |X| \<newline>-+-+-\<newline>O| |X\<newline>'' =
     Some [X, O_cell, None_cell, None_cell, X, None_cell, O_cell, None_cell, X]"
  using fmt_TicTacToeBoard_roundtrip [of
      "\<lparr>cells = [X, O_cell, None_cell, None_cell, X, None_cell, O_cell, None_cell, X]\<rparr>"]
  by (simp add: exec_eval read_board_def read_cell_def)

end
