(* ===== verification/TTT_Profile.thy ===== *)
theory TTT_Profile
  imports TTT_Board
begin

text \<open>
  The two build profiles. With overflow checks (the default of \<^verbatim>\<open>cargo build\<close>, the
  profile \<open>Debug\<close>) an addition or multiplication on \<^verbatim>\<open>usize\<close> that overflows panics;
  without them (\<^verbatim>\<open>cargo build --release\<close>, the profile \<open>Release\<close>) it wraps around
  modulo \<open>2 ^ 64\<close>. Array accesses are bounds-checked in both.

  \<^item> \<open>usize_add_in\<close> and \<open>usize_mul_in\<close> are \<^verbatim>\<open>+\<close> and \<^verbatim>\<open>*\<close> in a given profile.
  \<^item> \<open>checkVertical_in\<close>, \<open>checkHorizontal_in\<close> and \<open>changeState_in\<close> are the methods of
    the board, the text of \<open>TTT_Board\<close> with the arithmetic of the profile; in
    the profile \<open>Debug\<close> they are the definitions of \<open>TTT_Board\<close>
    (\<open>changeState_in_Debug\<close>).

  The lemmas show that the profile makes no difference to \<open>changeState\<close> on a
  board of nine cells, so that everything proved of the board and of the loop
  holds for the release build as well, and where the helper \<open>checkHorizontal\<close>
  would differ if \<open>changeState\<close> did not guard its calls.
\<close>

datatype profile = Debug | Release

definition usize_add_in :: "profile \<Rightarrow> usize \<Rightarrow> usize \<Rightarrow> usize exec" where
  "usize_add_in pr a b = (case pr of Debug \<Rightarrow> usize_add a b | Release \<Rightarrow> Inr (a + b))"

definition usize_mul_in :: "profile \<Rightarrow> usize \<Rightarrow> usize \<Rightarrow> usize exec" where
  "usize_mul_in pr a b = (case pr of Debug \<Rightarrow> usize_mul a b | Release \<Rightarrow> Inr (a * b))"

definition checkVertical_in ::
  "profile \<Rightarrow> TicTacToeBoard \<Rightarrow> BoardCell \<Rightarrow> usize \<Rightarrow> bool exec" where
  "checkVertical_in pr self cellState x =
     and_also
       (and_also (cell_is self x cellState)
          (pbind (usize_add_in pr x 3) (\<lambda>i. cell_is self i cellState)))
       (pbind (usize_add_in pr x 6) (\<lambda>i. cell_is self i cellState))"

definition checkHorizontal_in ::
  "profile \<Rightarrow> TicTacToeBoard \<Rightarrow> BoardCell \<Rightarrow> usize \<Rightarrow> bool exec" where
  "checkHorizontal_in pr self cellState y =
     pbind (usize_mul_in pr 3 y) (\<lambda>x.
       and_also
         (and_also (cell_is self x cellState)
            (pbind (usize_add_in pr x 1) (\<lambda>i. cell_is self i cellState)))
         (pbind (usize_add_in pr x 2) (\<lambda>i. cell_is self i cellState)))"

definition changeState_in ::
  "profile \<Rightarrow> TicTacToeBoard \<Rightarrow> BoardCell \<Rightarrow> usize \<times> usize \<Rightarrow>
     ((BoardError + GameState) \<times> TicTacToeBoard) exec" where
  "changeState_in pr self cellState xy =
     (case xy of (x, y) \<Rightarrow>
        if 3 \<le> x \<or> 3 \<le> y then Inr (Inl OutOfBounds, self)
        else
          pbind (usize_mul_in pr 3 y) (\<lambda>t.
          pbind (usize_add_in pr x t) (\<lambda>index.
          pbind (index_at (cells self) index) (\<lambda>cell.
            case cell of
              None_cell \<Rightarrow>
                pbind (store_at (cells self) index cellState) (\<lambda>cs.
                let self' = self\<lparr>cells := cs\<rparr> in
                pbind (checkVertical_in pr self' cellState x) (\<lambda>vertical.
                if vertical then Inr (Inr (End cellState), self')
                else
                pbind (checkHorizontal_in pr self' cellState y) (\<lambda>horizontal.
                if horizontal then Inr (Inr (End cellState), self')
                else
                pbind (and_also (and_also (cell_is self' 0 cellState) (cell_is self' 4 cellState))
                         (cell_is self' 8 cellState)) (\<lambda>diagonal_0_8.
                if diagonal_0_8 then Inr (Inr (End cellState), self')
                else
                pbind (and_also (and_also (cell_is self' 2 cellState) (cell_is self' 4 cellState))
                         (cell_is self' 6 cellState)) (\<lambda>diagonal_2_6.
                if diagonal_2_6 then Inr (Inr (End cellState), self')
                else if isFull self' then Inr (Inr (End None_cell), self')
                else Inr (Inr InProgress, self'))))))
            | _ \<Rightarrow> Inr (Inl AlreadyChanged, self)))))"

lemmas profile_defs =
  usize_add_in_def usize_mul_in_def checkVertical_in_def checkHorizontal_in_def
  changeState_in_def

lemmas [exec_eval] = profile_defs

subsection \<open>The profile \<open>Debug\<close> is the model of \<open>TTT_Board\<close>\<close>

lemma usize_arith_in_Debug [simp]:
  "usize_add_in Debug = usize_add" "usize_mul_in Debug = usize_mul"
  by (simp_all add: usize_add_in_def usize_mul_in_def fun_eq_iff)

lemma checkVertical_in_Debug [simp]: "checkVertical_in Debug = checkVertical"
  by (simp add: checkVertical_in_def checkVertical_def fun_eq_iff)

lemma checkHorizontal_in_Debug [simp]: "checkHorizontal_in Debug = checkHorizontal"
  by (simp add: checkHorizontal_in_def checkHorizontal_def fun_eq_iff)

lemma changeState_in_Debug [simp]: "changeState_in Debug = changeState"
  unfolding changeState_in_def changeState_def usize_arith_in_Debug checkVertical_in_Debug
    checkHorizontal_in_Debug fun_eq_iff
  by (intro allI refl)

subsection \<open>Arithmetic that does not overflow\<close>

lemma usize_add_in_ok [exec_ok]:
  "unat a + unat b < 2 ^ 64 \<Longrightarrow> usize_add_in pr a b = Inr (a + b)"
  by (cases pr) (simp_all add: usize_add_in_def usize_add_ok)

lemma usize_mul_in_ok [exec_ok]:
  "unat a * unat b < 2 ^ 64 \<Longrightarrow> usize_mul_in pr a b = Inr (a * b)"
  by (cases pr) (simp_all add: usize_mul_in_def usize_mul_ok)

lemma usize_add_in_eq:
  "unat a + unat b < 2 ^ 64 \<Longrightarrow> usize_add_in pr a b = usize_add a b"
  by (simp add: usize_add_in_ok usize_add_ok)

lemma usize_mul_in_eq:
  "unat a * unat b < 2 ^ 64 \<Longrightarrow> usize_mul_in pr a b = usize_mul a b"
  by (simp add: usize_mul_in_ok usize_mul_ok)

lemma usize_arith_in_Release_no_panic:
  "no_panic (usize_add_in Release a b)" "no_panic (usize_mul_in Release a b)"
  by (simp_all add: usize_add_in_def usize_mul_in_def)

lemma unat_wrapping_add: "unat (a + b :: usize) = (unat a + unat b) mod 2 ^ 64"
  by (simp add: unat_word_ariths)

lemma unat_wrapping_mul: "unat (a * b :: usize) = (unat a * unat b) mod 2 ^ 64"
  by (simp add: unat_word_ariths)

subsection \<open>The checks in both profiles\<close>

lemma checkVertical_in_ok:
  assumes "wf_board self" "unat x < 3"
  shows "checkVertical_in pr self m x = checkVertical self m x"
  using assms(2) by (simp add: checkVertical_in_def checkVertical_def usize_add_in_eq)

lemma checkHorizontal_in_ok:
  assumes "wf_board self" "unat y < 3"
  shows "checkHorizontal_in pr self m y = checkHorizontal self m y"
proof -
  from assms(2) have "usize_mul_in pr 3 y = Inr (3 * y)" "usize_mul 3 y = Inr (3 * y)"
    and "unat (3 * y) = 3 * unat y"
    by (simp_all add: usize_mul_in_ok usize_mul_ok unat_usize_mul)
  with assms(2) show ?thesis
    by (simp add: checkHorizontal_in_def checkHorizontal_def usize_add_in_eq)
qed

lemma changeState_in_eq:
  assumes "wf_board self"
  shows "changeState_in pr self m (x, y) = changeState self m (x, y)"
proof (cases "3 \<le> x \<or> 3 \<le> y")
  case True
  then show ?thesis by (simp add: changeState_in_def changeState_def)
next
  case False
  then have xy: "unat x < 3" "unat y < 3" by (simp_all add: usize_ge_3_iff)
  then have idx: "usize_mul_in pr 3 y = Inr (3 * y)" "usize_add_in pr x (3 * y) = Inr (x + 3 * y)"
    by (simp_all add: usize_mul_in_ok usize_add_in_ok unat_usize_mul)
  from xy assms have "unat (x + 3 * y) < length (cells self)"
    by (simp add: move_index wf_board_def cell_index_less)
  with False xy assms idx show ?thesis
    by (cases "cells self ! unat (x + 3 * y)")
      (simp_all add: changeState_in_def changeState_def move_index(1,2) index_at_ok store_at_ok
        Let_def checkVertical_in_ok checkHorizontal_in_ok wf_board_def cong: if_cong)
qed

subsection \<open>Outside the domain of \<open>checkHorizontal\<close>\<close>

lemma checkHorizontal_row_out_of_range:
  assumes "wf_board self" "3 \<le> unat y" "3 * unat y < 2 ^ 64"
  shows "checkHorizontal self m y = Inl IndexOutOfBounds"
proof -
  from assms(3) have "usize_mul 3 y = Inr (3 * y)" "unat (3 * y) = 3 * unat y"
    by (simp_all add: usize_mul_ok unat_usize_mul)
  with assms(1,2) show ?thesis
    by (simp add: checkHorizontal_def cell_is_panic wf_board_def)
qed

lemma checkHorizontal_overflow:
  "2 ^ 64 \<le> 3 * unat y \<Longrightarrow> checkHorizontal self m y = Inl ArithmeticOverflow"
  by (simp add: checkHorizontal_def usize_mul_overflow)

lemma checkHorizontal_cases:
  assumes "wf_board self"
  shows "checkHorizontal self m y =
    (if unat y < 3 then Inr (line_complete (cells self) m (row_line (unat y)))
     else if 3 * unat y < 2 ^ 64 then Inl IndexOutOfBounds else Inl ArithmeticOverflow)"
  using assms
  by (simp add: checkHorizontal_ok checkHorizontal_row_out_of_range checkHorizontal_overflow
      not_less)

lemma checkHorizontal_in_Release_wraps:
  assumes "wf_board self" "unat (3 * y) < 7"
  shows "checkHorizontal_in Release self m y =
    Inr (line_complete (cells self) m [unat (3 * y), unat (3 * y) + 1, unat (3 * y) + 2])"
proof -
  from assms(2) have "unat (3 * y + 1) = unat (3 * y) + 1" "unat (3 * y + 2) = unat (3 * y) + 2"
    by (simp_all add: unat_usize_add)
  with assms show ?thesis
    by (simp add: checkHorizontal_in_def usize_mul_in_def usize_add_in_def cell_is_ok
        wf_board_def and_also_Inr line_complete_def)
qed

section \<open>Properties of the profiles\<close>

text \<open>
  C14 (equivalence). The build profile makes no difference to the board. With the
  overflow checks \<open>changeState_in\<close> is \<open>changeState\<close>, and on a board of nine cells
  \<open>changeState_in\<close> without the checks returns what \<open>changeState\<close> returns, for every
  mark and all coordinates: the guard on the coordinates keeps the arithmetic
  below twelve, where wrapping and checking agree.
\<close>

theorem changeState_profile_independent:
  "changeState_in Debug self m xy = changeState self m xy \<and>
   (wf_board self \<longrightarrow> changeState_in Release self m xy = changeState self m xy)"
  by (cases xy) (simp add: changeState_in_eq)

theorem changeState_profile_independent_witness:
  "wf_board default_board \<and>
   changeState_in Release default_board X (2, 18446744073709551615) =
     Inr (Inl OutOfBounds, default_board) \<and>
   changeState_in Release default_board X (2, 2) =
     Inr (Inr InProgress,
          \<lparr>cells = [None_cell, None_cell, None_cell, None_cell, None_cell, None_cell,
                    None_cell, None_cell, X]\<rparr>)"
  using changeState_profile_independent [of default_board X "(2, 18446744073709551615)"]
    changeState_profile_independent [of default_board X "(2, 2)"]
  by (simp add: exec_eval)

text \<open>
  C27 (bounds). The guard of \<open>changeState\<close> is what keeps \<open>checkHorizontal\<close> in its
  domain. On a board of nine cells \<open>checkHorizontal\<close> returns only for rows below
  three; for a larger row it panics, with an index out of range while \<^verbatim>\<open>3 * y\<close>
  fits into 64 bits and with an overflow from there on. Without the overflow
  checks the product wraps around, and when it wraps to less than seven the
  method does not panic but compares three cells that need not be a row.
\<close>

theorem checkHorizontal_domain:
  assumes "wf_board self"
  shows "(no_panic (checkHorizontal self m y) \<longleftrightarrow> y < 3) \<and>
    (checkHorizontal self m y = Inl ArithmeticOverflow \<longleftrightarrow> 2 ^ 64 \<le> 3 * unat y) \<and>
    (if unat (3 * y) < 7
     then checkHorizontal_in Release self m y =
       Inr (line_complete (cells self) m [unat (3 * y), unat (3 * y) + 1, unat (3 * y) + 2])
     else True)"
  using assms
  by (simp add: checkHorizontal_cases checkHorizontal_in_Release_wraps usize_lt_3_iff not_less)

theorem checkHorizontal_domain_witness:
  "wf_board \<lparr>cells = [O_cell, O_cell, X, X, X, None_cell, None_cell, None_cell, None_cell]\<rparr> \<and>
   checkHorizontal
     \<lparr>cells = [O_cell, O_cell, X, X, X, None_cell, None_cell, None_cell, None_cell]\<rparr> X
     6148914691236517206 = Inl ArithmeticOverflow \<and>
   checkHorizontal_in Release
     \<lparr>cells = [O_cell, O_cell, X, X, X, None_cell, None_cell, None_cell, None_cell]\<rparr> X
     6148914691236517206 = Inr True"
  using checkHorizontal_domain
    [of "\<lparr>cells = [O_cell, O_cell, X, X, X, None_cell, None_cell, None_cell, None_cell]\<rparr>"
      X 6148914691236517206]
  by (simp add: exec_eval)

end
