(* ===== verification/TTT_Input.thy ===== *)
theory TTT_Input
  imports TTT_Prelude
begin

text \<open>
  What \<^verbatim>\<open>main\<close> does to a line it has read (\<^verbatim>\<open>src/src/main.rs\<close>, lines 137-156): the
  calls \<^verbatim>\<open>split(' ')\<close>, \<^verbatim>\<open>trim()\<close> and \<^verbatim>\<open>parse::<usize>()\<close> of the standard library, and
  the way \<^verbatim>\<open>main\<close> combines them. A line is a \<open>string\<close>, the bytes of its UTF-8 text.

  \<^item> \<open>split_char d s\<close> is \<^verbatim>\<open>s.split(d)\<close>: the pieces of \<open>s\<close> between the occurrences of
    \<open>d\<close>, empty pieces included, so that there is always at least one piece.
  \<^item> \<open>trim s\<close> is \<^verbatim>\<open>s.trim()\<close>: it removes the white space at both ends. \<open>white_space\<close>
    lists the UTF-8 encodings of the 25 code points with the Unicode property
    White_Space; \<open>strip_any\<close> removes such encodings from the front as long as there
    is one, and the end is treated as the front of the reversed text.
  \<^item> \<open>parse_usize s\<close> is \<^verbatim>\<open>s.parse::<usize>()\<close>: an optional \<^verbatim>\<open>+\<close>, then decimal digits
    read from the left into an accumulator; the errors are those of
    \<^verbatim>\<open>IntErrorKind\<close>, and \<open>fmt_ParseIntError\<close> is the text each is displayed as.
  \<^item> \<open>parse_line s\<close> is the part of the loop body between reading the line and
    calling the board: either the reason the line is refused (\<open>line_error\<close>, one
    constructor for each \<^verbatim>\<open>continue\<close> of that part), or the two coordinates;
    \<open>fmt_line_error\<close> is the text printed before the \<^verbatim>\<open>continue\<close>.
  \<^item> \<open>show_dec n\<close>, the decimal digits of \<open>n\<close>, and \<open>join_with\<close>, the inverse of
    \<open>split_char\<close>, are reference functions for the round trips; \<open>ends_with\<close> is the
    mirror image of \<open>starts_with\<close>, used to say what \<open>trim\<close> leaves.

  The lemmas give the number of pieces of a split (one more than the number of
  separators), the round trips split/join and print/parse, what \<open>trim\<close> removes
  and what it leaves, the exact conditions of each parse error, and the lines
  that \<open>parse_line\<close> accepts.
\<close>

datatype IntErrorKind = Empty | InvalidDigit | PosOverflow

datatype line_error =
    WrongArity
  | FirstInvalid IntErrorKind
  | SecondInvalid IntErrorKind
  | BothInvalid IntErrorKind IntErrorKind

fun fmt_ParseIntError :: "IntErrorKind \<Rightarrow> string" where
  "fmt_ParseIntError Empty = ''cannot parse integer from empty string''"
| "fmt_ParseIntError InvalidDigit = ''invalid digit found in string''"
| "fmt_ParseIntError PosOverflow = ''number too large to fit in target type''"

fun split_char :: "char \<Rightarrow> string \<Rightarrow> string list" where
  "split_char d [] = [[]]"
| "split_char d (c # s) =
     (if c = d then [] # split_char d s
      else (case split_char d s of [] \<Rightarrow> [[c]] | w # ws \<Rightarrow> (c # w) # ws))"

fun join_with :: "char \<Rightarrow> string list \<Rightarrow> string" where
  "join_with d [] = []"
| "join_with d [w] = w"
| "join_with d (w # v # ws) = w @ d # join_with d (v # ws)"

definition white_space :: "string list" where
  "white_space =
     [[CHR 0x09], [CHR 0x0A], [CHR 0x0B], [CHR 0x0C], [CHR 0x0D], [CHR 0x20],
      [CHR 0xC2, CHR 0x85], [CHR 0xC2, CHR 0xA0], [CHR 0xE1, CHR 0x9A, CHR 0x80],
      [CHR 0xE2, CHR 0x80, CHR 0x80], [CHR 0xE2, CHR 0x80, CHR 0x81],
      [CHR 0xE2, CHR 0x80, CHR 0x82], [CHR 0xE2, CHR 0x80, CHR 0x83],
      [CHR 0xE2, CHR 0x80, CHR 0x84], [CHR 0xE2, CHR 0x80, CHR 0x85],
      [CHR 0xE2, CHR 0x80, CHR 0x86], [CHR 0xE2, CHR 0x80, CHR 0x87],
      [CHR 0xE2, CHR 0x80, CHR 0x88], [CHR 0xE2, CHR 0x80, CHR 0x89],
      [CHR 0xE2, CHR 0x80, CHR 0x8A], [CHR 0xE2, CHR 0x80, CHR 0xA8],
      [CHR 0xE2, CHR 0x80, CHR 0xA9], [CHR 0xE2, CHR 0x80, CHR 0xAF],
      [CHR 0xE2, CHR 0x81, CHR 0x9F], [CHR 0xE3, CHR 0x80, CHR 0x80]]"

definition starts_with :: "string \<Rightarrow> string \<Rightarrow> bool" where
  "starts_with s p \<longleftrightarrow> take (length p) s = p"

definition ends_with :: "string \<Rightarrow> string \<Rightarrow> bool" where
  "ends_with s p \<longleftrightarrow> starts_with (rev s) (rev p)"

function strip_any :: "string list \<Rightarrow> string \<Rightarrow> string" where
  "strip_any ps s =
     (case find (\<lambda>p. p \<noteq> [] \<and> starts_with s p) ps of
        None \<Rightarrow> s
      | Some p \<Rightarrow> strip_any ps (drop (length p) s))"
  by pat_completeness auto
termination
proof (relation "measure (\<lambda>(ps, s). length s)")
  show "wf (measure (\<lambda>(ps, s). length s))" by simp
next
  fix ps :: "string list" and s p :: string
  assume "find (\<lambda>p. p \<noteq> [] \<and> starts_with s p) ps = Some p"
  then have "p \<noteq> []" "starts_with s p"
    by (auto simp: find_Some_iff)
  then have "s \<noteq> []" by (auto simp: starts_with_def)
  with \<open>p \<noteq> []\<close> show "((ps, drop (length p) s), (ps, s)) \<in> measure (\<lambda>(ps, s). length s)"
    by simp
qed

declare strip_any.simps [simp del]

definition trim_start :: "string \<Rightarrow> string" where
  "trim_start s = strip_any white_space s"

definition trim_end :: "string \<Rightarrow> string" where
  "trim_end s = rev (strip_any (map rev white_space) (rev s))"

definition trim :: "string \<Rightarrow> string" where
  "trim s = trim_end (trim_start s)"

definition to_digit :: "char \<Rightarrow> nat option" where
  "to_digit c =
     (if 48 \<le> (of_char c :: nat) \<and> (of_char c :: nat) \<le> 57 then Some (of_char c - 48)
      else None)"

fun parse_digits :: "nat \<Rightarrow> string \<Rightarrow> IntErrorKind + nat" where
  "parse_digits result [] = Inr result"
| "parse_digits result (c # digits) =
     (case to_digit c of
        None \<Rightarrow> Inl InvalidDigit
      | Some x \<Rightarrow>
          if 2 ^ 64 \<le> result * 10 then Inl PosOverflow
          else if 2 ^ 64 \<le> result * 10 + x then Inl PosOverflow
          else parse_digits (result * 10 + x) digits)"

definition parse_usize :: "string \<Rightarrow> IntErrorKind + usize" where
  "parse_usize src =
     (if src = [] then Inl Empty
      else if src = ''+'' \<or> src = ''-'' then Inl InvalidDigit
      else map_sum id of_nat
             (parse_digits 0 (if hd src = CHR ''+'' then tl src else src)))"

definition parse_line :: "string \<Rightarrow> line_error + usize \<times> usize" where
  "parse_line userInput =
     (let args = split_char CHR '' '' userInput in
      if length args \<noteq> 2 then Inl WrongArity
      else
        (case (parse_usize (trim (args ! 0)), parse_usize (trim (args ! 1))) of
           (Inr x, Inr y) \<Rightarrow> Inr (x, y)
         | (Inl e, Inr _) \<Rightarrow> Inl (FirstInvalid e)
         | (Inr _, Inl e) \<Rightarrow> Inl (SecondInvalid e)
         | (Inl e1, Inl e2) \<Rightarrow> Inl (BothInvalid e1 e2)))"

fun fmt_line_error :: "line_error \<Rightarrow> string" where
  "fmt_line_error WrongArity = ''Incorrect number of arguments''"
| "fmt_line_error (FirstInvalid e) = fmt_ParseIntError e"
| "fmt_line_error (SecondInvalid e) = fmt_ParseIntError e"
| "fmt_line_error (BothInvalid e1 e2) =
     fmt_ParseIntError e1 @ '', '' @ fmt_ParseIntError e2"

definition digit_char :: "nat \<Rightarrow> char" where
  "digit_char d = char_of (48 + d)"

fun show_dec :: "nat \<Rightarrow> string" where
  "show_dec n = (if n < 10 then [digit_char n] else show_dec (n div 10) @ [digit_char (n mod 10)])"

declare show_dec.simps [simp del]

definition all_digits :: "string \<Rightarrow> bool" where
  "all_digits s = list_all (\<lambda>c. to_digit c \<noteq> None) s"

definition digits_value :: "nat \<Rightarrow> string \<Rightarrow> nat" where
  "digits_value acc s = foldl (\<lambda>v c. v * 10 + the (to_digit c)) acc s"

lemmas input_defs =
  white_space_def starts_with_def trim_start_def trim_end_def trim_def to_digit_def
  parse_usize_def parse_line_def digit_char_def all_digits_def digits_value_def

lemmas [exec_eval] = input_defs strip_any.simps show_dec.simps

subsection \<open>Splitting\<close>

lemma split_char_not_Nil [simp]: "split_char d s \<noteq> []"
  by (induction s) (auto split: list.splits)

lemma split_char_Cons:
  "split_char d (c # s) =
     (if c = d then [] # split_char d s
      else (c # hd (split_char d s)) # tl (split_char d s))"
  by (cases "split_char d s") simp_all

lemma length_split_char: "length (split_char d s) = Suc (count_list s d)"
  by (induction s) (simp_all add: split_char_Cons del: split_char.simps(2))

lemma split_char_no_separator: "w \<in> set (split_char d s) \<Longrightarrow> d \<notin> set w"
proof (induction s arbitrary: w)
  case Nil
  then show ?case by simp
next
  case (Cons c s)
  then show ?case
    by (cases "split_char d s") (auto split: if_splits)
qed

lemma join_with_Cons_Cons:
  "ws \<noteq> [] \<Longrightarrow> join_with d ((c # w) # ws) = c # join_with d (w # ws)"
  by (cases ws) simp_all

lemma join_with_split_char: "join_with d (split_char d s) = s"
proof (induction s)
  case Nil
  show ?case by simp
next
  case (Cons c s)
  show ?case
  proof (cases "split_char d s")
    case Nil
    then show ?thesis by simp
  next
    case (Cons w ws)
    with Cons.IH show ?thesis
      by (cases ws) auto
  qed
qed

lemma split_char_no_occurrence: "d \<notin> set s \<Longrightarrow> split_char d s = [s]"
  by (induction s) auto

lemma split_char_append:
  "d \<notin> set u \<Longrightarrow> split_char d (u @ d # s) = u # split_char d s"
  by (induction u) auto

lemma split_char_two:
  "d \<notin> set u \<Longrightarrow> d \<notin> set v \<Longrightarrow> split_char d (u @ d # v) = [u, v]"
  by (simp add: split_char_append split_char_no_occurrence)

lemma split_char_two_iff:
  "length (split_char d s) = 2 \<longleftrightarrow> count_list s d = 1"
  by (simp add: length_split_char)

subsection \<open>Trimming\<close>

lemma strip_any_None:
  "find (\<lambda>p. p \<noteq> [] \<and> starts_with s p) ps = None \<Longrightarrow> strip_any ps s = s"
  by (subst strip_any.simps) simp

lemma strip_any_Some:
  "find (\<lambda>p. p \<noteq> [] \<and> starts_with s p) ps = Some p \<Longrightarrow>
   strip_any ps s = strip_any ps (drop (length p) s)"
  by (subst strip_any.simps) simp

lemma strip_any_Nil [simp]: "strip_any ps [] = []"
  by (rule strip_any_None) (auto simp: find_None_iff starts_with_def)

lemma strip_any_is_drop: "\<exists>n. strip_any ps s = drop n s"
proof (induction ps s rule: strip_any.induct)
  case (1 ps s)
  show ?case
  proof (cases "find (\<lambda>p. p \<noteq> [] \<and> starts_with s p) ps")
    case None
    then have "strip_any ps s = drop 0 s" by (simp add: strip_any_None)
    then show ?thesis by blast
  next
    case (Some p)
    with "1.IH" obtain n where "strip_any ps (drop (length p) s) = drop n (drop (length p) s)"
      by blast
    with Some have "strip_any ps s = drop (n + length p) s"
      by (simp add: strip_any_Some add.commute)
    then show ?thesis by blast
  qed
qed

lemma strip_any_fixpoint:
  "find (\<lambda>p. p \<noteq> [] \<and> starts_with (strip_any ps s) p) ps = None"
proof (induction ps s rule: strip_any.induct)
  case (1 ps s)
  show ?case
  proof (cases "find (\<lambda>p. p \<noteq> [] \<and> starts_with s p) ps")
    case None
    then show ?thesis by (simp add: strip_any_None)
  next
    case (Some p)
    with "1.IH" show ?thesis by (simp add: strip_any_Some)
  qed
qed

lemma strip_any_idem [simp]: "strip_any ps (strip_any ps s) = strip_any ps s"
  by (rule strip_any_None) (rule strip_any_fixpoint)

lemma length_strip_any: "length (strip_any ps s) \<le> length s"
  using strip_any_is_drop [of ps s] by auto

lemma strip_any_no_prefix:
  "\<forall>p \<in> set ps. p = [] \<or> \<not> starts_with s p \<Longrightarrow> strip_any ps s = s"
  by (rule strip_any_None) (auto simp: find_None_iff)

subsection \<open>What trimming removes\<close>

lemma starts_with_split: "starts_with s p \<Longrightarrow> s = p @ drop (length p) s"
proof -
  assume "starts_with s p"
  then have "take (length p) s = p" by (simp add: starts_with_def)
  moreover have "s = take (length p) s @ drop (length p) s" by simp
  ultimately show ?thesis by (simp only:)
qed

lemma starts_with_iff: "starts_with s p \<longleftrightarrow> (\<exists>t. s = p @ t)"
proof
  assume "starts_with s p"
  then have "s = p @ drop (length p) s" by (rule starts_with_split)
  then show "\<exists>t. s = p @ t" ..
next
  assume "\<exists>t. s = p @ t"
  then show "starts_with s p" by (auto simp: starts_with_def)
qed

lemma starts_with_append: "starts_with s p \<Longrightarrow> starts_with (s @ t) p"
  by (auto simp: starts_with_iff)

lemma strip_any_removes:
  "\<exists>qs. set qs \<subseteq> set ps \<and> s = concat qs @ strip_any ps s"
proof (induction ps s rule: strip_any.induct)
  case (1 ps s)
  show ?case
  proof (cases "find (\<lambda>p. p \<noteq> [] \<and> starts_with s p) ps")
    case None
    then have "s = concat [] @ strip_any ps s" by (simp add: strip_any_None)
    then show ?thesis by (intro exI [of _ "[]"]) simp
  next
    case (Some p)
    then have p: "p \<in> set ps" "starts_with s p"
      by (auto simp: find_Some_iff)
    from Some "1.IH" obtain qs where qs: "set qs \<subseteq> set ps"
      "drop (length p) s = concat qs @ strip_any ps (drop (length p) s)"
      by blast
    from p(2) have "s = p @ drop (length p) s" by (rule starts_with_split)
    also have "\<dots> = p @ (concat qs @ strip_any ps (drop (length p) s))"
      using qs(2) by (rule arg_cong)
    also have "\<dots> = concat (p # qs) @ strip_any ps s"
      using Some by (simp add: strip_any_Some)
    finally have "s = concat (p # qs) @ strip_any ps s" .
    with qs(1) p(1) show ?thesis by (intro exI [of _ "p # qs"]) simp
  qed
qed

lemma strip_any_no_prefix_left:
  "p \<in> set ps \<Longrightarrow> p \<noteq> [] \<Longrightarrow> \<not> starts_with (strip_any ps s) p"
  using strip_any_fixpoint [of ps s] by (auto simp: find_None_iff)

lemma trim_start_removes:
  "\<exists>pre. set pre \<subseteq> set white_space \<and> s = concat pre @ trim_start s"
  unfolding trim_start_def by (rule strip_any_removes)

lemma trim_end_removes:
  "\<exists>post. set post \<subseteq> set white_space \<and> s = trim_end s @ concat post"
proof -
  from strip_any_removes [of "map rev white_space" "rev s"] obtain qs where
    qs: "set qs \<subseteq> set (map rev white_space)"
    "rev s = concat qs @ strip_any (map rev white_space) (rev s)"
    by blast
  from qs(2) have "rev (rev s) = rev (concat qs @ strip_any (map rev white_space) (rev s))"
    by (rule arg_cong)
  then have "s = trim_end s @ concat (map rev (rev qs))"
    by (simp add: trim_end_def rev_concat rev_map)
  moreover from qs(1) have "set (map rev (rev qs)) \<subseteq> set white_space"
    by auto
  ultimately show ?thesis by (intro exI [of _ "map rev (rev qs)"]) simp
qed

lemma trim_removes:
  "\<exists>pre post. set pre \<subseteq> set white_space \<and> set post \<subseteq> set white_space \<and>
     s = concat pre @ trim s @ concat post"
proof -
  from trim_start_removes [of s] obtain pre where
    pre: "set pre \<subseteq> set white_space" "s = concat pre @ trim_start s" by blast
  from trim_end_removes [of "trim_start s"] obtain post where
    post: "set post \<subseteq> set white_space" "trim_start s = trim s @ concat post"
    by (auto simp: trim_def)
  note pre(2)
  also have "concat pre @ trim_start s = concat pre @ (trim s @ concat post)"
    using post(2) by (rule arg_cong)
  finally have "s = concat pre @ trim s @ concat post" .
  with pre(1) post(1) show ?thesis by blast
qed

lemma white_space_not_Nil: "p \<in> set white_space \<Longrightarrow> p \<noteq> []"
  by (auto simp: white_space_def)

lemma trim_no_white_space_at_ends:
  assumes "p \<in> set white_space"
  shows "\<not> starts_with (trim s) p" and "\<not> ends_with (trim s) p"
proof -
  from assms have p: "p \<noteq> []" by (rule white_space_not_Nil)
  from trim_end_removes [of "trim_start s"] obtain post where
    post: "trim_start s = trim s @ concat post"
    by (auto simp: trim_def)
  show "\<not> starts_with (trim s) p"
  proof
    assume "starts_with (trim s) p"
    then have "starts_with (trim s @ concat post) p" by (rule starts_with_append)
    then have "starts_with (trim_start s) p" by (simp only: post)
    with assms p strip_any_no_prefix_left [of p white_space s] show False
      by (simp add: trim_start_def)
  qed
  from assms p strip_any_no_prefix_left [of "rev p" "map rev white_space" "rev (trim_start s)"]
  show "\<not> ends_with (trim s) p"
    by (simp add: ends_with_def trim_def trim_end_def)
qed

lemma trim_idem [simp]: "trim (trim s) = trim s"
proof -
  have "trim_start (trim s) = trim s"
    unfolding trim_start_def
    by (rule strip_any_no_prefix) (auto dest: trim_no_white_space_at_ends(1))
  moreover have "trim_end (trim s) = trim s"
    by (simp add: trim_def trim_end_def)
  ultimately show ?thesis by (simp add: trim_def)
qed

subsection \<open>Digits\<close>

lemma to_digit_Some_iff:
  "to_digit c = Some d \<longleftrightarrow> 48 \<le> (of_char c :: nat) \<and> (of_char c :: nat) \<le> 57 \<and> d = of_char c - 48"
  by (auto simp: to_digit_def)

lemma to_digit_less: "to_digit c = Some d \<Longrightarrow> d < 10"
  by (auto simp: to_digit_Some_iff)

lemma to_digit_digit_char [simp]: "d < 10 \<Longrightarrow> to_digit (digit_char d) = Some d"
  by (simp add: to_digit_def digit_char_def)

lemma digit_char_not_plus [simp]: "d < 10 \<Longrightarrow> digit_char d \<noteq> CHR ''+''"
proof
  assume "d < 10" and "digit_char d = CHR ''+''"
  then have "to_digit (CHR ''+'') = Some d" by (metis to_digit_digit_char)
  then show False by (simp add: to_digit_def)
qed

lemma show_dec_not_Nil [simp]: "show_dec n \<noteq> []"
  by (subst show_dec.simps) simp

lemma all_digits_show_dec: "all_digits (show_dec n)"
proof (induction n rule: show_dec.induct)
  case (1 n)
  show ?case
  proof (cases "n < 10")
    case True
    then show ?thesis by (subst show_dec.simps) (simp add: all_digits_def)
  next
    case False
    with "1.IH" show ?thesis
      by (subst show_dec.simps) (simp add: all_digits_def)
  qed
qed

lemma hd_show_dec_digit: "to_digit (hd (show_dec n)) \<noteq> None"
  using all_digits_show_dec [of n] show_dec_not_Nil [of n]
  by (cases "show_dec n") (auto simp: all_digits_def)

lemma hd_show_dec_not_plus: "hd (show_dec n) \<noteq> CHR ''+''"
  using hd_show_dec_digit [of n] by (auto simp: to_digit_def)

lemma show_dec_not_sign: "show_dec n \<noteq> ''+''" "show_dec n \<noteq> ''-''"
  using hd_show_dec_digit [of n] by (auto simp: to_digit_def)

subsection \<open>Parsing\<close>

lemma parse_digits_append:
  "parse_digits acc (u @ v) =
     (case parse_digits acc u of Inl e \<Rightarrow> Inl e | Inr r \<Rightarrow> parse_digits r v)"
  by (induction u arbitrary: acc) (auto split: option.splits)

lemma parse_digits_bound: "parse_digits acc s = Inr r \<Longrightarrow> acc < 2 ^ 64 \<Longrightarrow> r < 2 ^ 64"
  by (induction s arbitrary: acc) (auto split: option.splits if_splits simp: not_le)

lemma parse_digits_single:
  "d < 10 \<Longrightarrow> acc * 10 + d < 2 ^ 64 \<Longrightarrow> parse_digits acc [digit_char d] = Inr (acc * 10 + d)"
  by (auto simp: not_le)

lemma parse_digits_show_dec:
  "n < 2 ^ 64 \<Longrightarrow> parse_digits 0 (show_dec n) = Inr n"
proof (induction n rule: show_dec.induct)
  case (1 n)
  show ?case
  proof (cases "n < 10")
    case True
    with "1.prems" show ?thesis
      by (subst show_dec.simps) (simp add: parse_digits_single)
  next
    case False
    from "1.prems" have "n div 10 < 2 ^ 64" by simp
    with False "1.IH" have "parse_digits 0 (show_dec (n div 10)) = Inr (n div 10)"
      by simp
    moreover have "n div 10 * 10 + n mod 10 = n" by simp
    ultimately show ?thesis
      using False "1.prems"
      by (subst show_dec.simps) (simp add: parse_digits_append parse_digits_single)
  qed
qed

lemma digits_value_ge: "acc \<le> digits_value acc s"
  unfolding digits_value_def
proof (induction s arbitrary: acc rule: rev_induct)
  case Nil
  show ?case by simp
next
  case (snoc a s)
  have "acc \<le> foldl (\<lambda>v c. v * 10 + the (to_digit c)) acc s"
    by (rule snoc.IH)
  also have "\<dots> \<le> \<dots> * 10 + the (to_digit a)" by simp
  finally show ?case by simp
qed

lemma parse_digits_Inr_iff:
  "parse_digits acc s = Inr r \<longleftrightarrow>
     all_digits s \<and> r = digits_value acc s \<and> (s \<noteq> [] \<longrightarrow> r < 2 ^ 64)"
proof (induction s arbitrary: acc)
  case Nil
  show ?case by (auto simp: all_digits_def digits_value_def)
next
  case (Cons c s)
  show ?case
  proof (cases "to_digit c")
    case None
    then show ?thesis by (simp add: all_digits_def)
  next
    case (Some x)
    have step: "digits_value acc (c # s) = digits_value (acc * 10 + x) s"
      using Some by (simp add: digits_value_def)
    have ad: "all_digits (c # s) = all_digits s"
      using Some by (simp add: all_digits_def)
    show ?thesis
    proof (cases "2 ^ 64 \<le> acc * 10 + x")
      case True
      with digits_value_ge [of "acc * 10 + x" s]
      have "\<not> digits_value (acc * 10 + x) s < 2 ^ 64" by simp
      with True Some step show ?thesis
        by (auto simp: not_le)
    next
      case False
      then have "\<not> 2 ^ 64 \<le> acc * 10" by simp
      with False Some have "parse_digits acc (c # s) = parse_digits (acc * 10 + x) s"
        by simp
      with Cons.IH [of "acc * 10 + x"] step ad False show ?thesis
        by (cases s) (auto simp: digits_value_def not_le)
    qed
  qed
qed

lemma parse_usize_Empty_iff: "parse_usize s = Inl Empty \<longleftrightarrow> s = []"
proof -
  have "parse_digits acc u \<noteq> Inl Empty" for acc u
    by (induction u arbitrary: acc) (auto split: option.splits)
  then show ?thesis
    by (cases "parse_digits 0 (if hd s = CHR ''+'' then tl s else s)")
      (auto simp: parse_usize_def)
qed

lemma parse_usize_show_dec:
  "n < 2 ^ 64 \<Longrightarrow> parse_usize (show_dec n) = Inr (of_nat n)"
  by (simp add: parse_usize_def show_dec_not_sign hd_show_dec_not_plus parse_digits_show_dec)

lemma unat_parse_usize_show_dec:
  "n < 2 ^ 64 \<Longrightarrow> map_sum id unat (parse_usize (show_dec n)) = Inr n"
  by (simp add: parse_usize_show_dec unat_of_nat)

subsection \<open>Lines that are accepted\<close>

lemma split_char_eq_two_iff:
  "split_char d s = [u, v] \<longleftrightarrow> s = u @ d # v \<and> d \<notin> set u \<and> d \<notin> set v"
proof
  assume eq: "split_char d s = [u, v]"
  with join_with_split_char [of d s] have "s = u @ d # v" by simp
  moreover from eq split_char_no_separator [of _ d s] have "d \<notin> set u" "d \<notin> set v"
    by simp_all
  ultimately show "s = u @ d # v \<and> d \<notin> set u \<and> d \<notin> set v" by simp
next
  assume "s = u @ d # v \<and> d \<notin> set u \<and> d \<notin> set v"
  then show "split_char d s = [u, v]" by (simp add: split_char_two)
qed

lemma starts_with_hd: "p \<noteq> [] \<Longrightarrow> starts_with s p \<Longrightarrow> s \<noteq> [] \<and> hd s = hd p"
  by (cases s; cases p) (auto simp: starts_with_def)

lemma white_space_not_digit:
  "p \<in> set white_space \<Longrightarrow> p \<noteq> [] \<and> to_digit (hd p) = None \<and> to_digit (last p) = None"
  by (auto simp: white_space_def to_digit_def)

lemma trim_start_digit:
  "s = [] \<or> to_digit (hd s) \<noteq> None \<Longrightarrow> trim_start s = s"
  unfolding trim_start_def
  by (rule strip_any_no_prefix) (auto dest!: white_space_not_digit dest: starts_with_hd simp: starts_with_def)

lemma trim_end_digit:
  "s = [] \<or> to_digit (last s) \<noteq> None \<Longrightarrow> trim_end s = s"
proof -
  assume s: "s = [] \<or> to_digit (last s) \<noteq> None"
  have "strip_any (map rev white_space) (rev s) = rev s"
  proof (rule strip_any_no_prefix, intro ballI)
    fix p assume "p \<in> set (map rev white_space)"
    then obtain q where q: "q \<in> set white_space" "p = rev q" by auto
    then have "p \<noteq> []" "to_digit (hd p) = None"
      by (auto dest!: white_space_not_digit simp: hd_rev)
    with s show "p = [] \<or> \<not> starts_with (rev s) p"
      by (auto dest: starts_with_hd simp: hd_rev)
  qed
  then show ?thesis by (simp add: trim_end_def)
qed

lemma trim_end_newline: "trim_end (s @ ''\<newline>'') = trim_end s"
proof -
  have "find (\<lambda>p. p \<noteq> [] \<and> starts_with (CHR ''\<newline>'' # rev s) p) (map rev white_space) =
      Some ''\<newline>''"
    by (simp add: white_space_def starts_with_def)
  then show ?thesis
    by (simp add: trim_end_def strip_any_Some)
qed

lemma all_digits_ends:
  "all_digits s \<Longrightarrow> (s = [] \<or> to_digit (hd s) \<noteq> None) \<and> (s = [] \<or> to_digit (last s) \<noteq> None)"
  by (cases s) (auto simp: all_digits_def list_all_iff)

lemma trim_digits: "all_digits s \<Longrightarrow> trim s = s"
proof -
  assume "all_digits s"
  with all_digits_ends [of s]
  have head: "s = [] \<or> to_digit (hd s) \<noteq> None"
    and rear: "s = [] \<or> to_digit (last s) \<noteq> None"
    by blast+
  from head have "trim_start s = s" by (rule trim_start_digit)
  moreover from rear have "trim_end s = s" by (rule trim_end_digit)
  ultimately show ?thesis by (simp add: trim_def)
qed

lemma trim_digits_newline:
  assumes "all_digits s" and "s \<noteq> []"
  shows "trim (s @ ''\<newline>'') = s"
proof -
  from assms all_digits_ends [of s]
  have head: "to_digit (hd s) \<noteq> None" and rear: "s = [] \<or> to_digit (last s) \<noteq> None"
    by blast+
  from head assms(2) have "s @ ''\<newline>'' = [] \<or> to_digit (hd (s @ ''\<newline>'')) \<noteq> None"
    by simp
  then have "trim_start (s @ ''\<newline>'') = s @ ''\<newline>''" by (rule trim_start_digit)
  moreover from rear have "trim_end s = s" by (rule trim_end_digit)
  ultimately show ?thesis
    by (simp add: trim_def trim_end_newline)
qed

lemma all_digits_no_space: "all_digits s \<Longrightarrow> CHR '' '' \<notin> set s"
  by (auto simp: all_digits_def list_all_iff to_digit_def)

lemma parse_line_show_dec:
  assumes "c < 2 ^ 64" "r < 2 ^ 64"
  shows "parse_line (show_dec c @ '' '' @ show_dec r @ ''\<newline>'') = Inr (of_nat c, of_nat r)"
proof -
  have "split_char CHR '' '' (show_dec c @ CHR '' '' # (show_dec r @ ''\<newline>'')) =
      [show_dec c, show_dec r @ ''\<newline>'']"
    by (rule split_char_two) (simp_all add: all_digits_no_space all_digits_show_dec)
  with assms show ?thesis
    by (simp add: parse_line_def trim_digits trim_digits_newline all_digits_show_dec
        parse_usize_show_dec)
qed

lemma digits_value_append:
  "digits_value acc (u @ v) = digits_value (digits_value acc u) v"
  by (simp add: digits_value_def)

lemma digits_value_show_dec: "digits_value 0 (show_dec n) = n"
proof (induction n rule: show_dec.induct)
  case (1 n)
  show ?case
  proof (cases "n < 10")
    case True
    then show ?thesis by (subst show_dec.simps) (simp add: digits_value_def)
  next
    case False
    with "1.IH" show ?thesis
      by (subst show_dec.simps) (simp add: digits_value_append, simp add: digits_value_def)
  qed
qed

lemma parse_digits_error:
  "parse_digits acc s = Inl e \<Longrightarrow>
   (e = InvalidDigit \<and> \<not> all_digits s) \<or> e = PosOverflow"
  by (induction s arbitrary: acc) (auto simp: all_digits_def split: option.splits if_splits)

section \<open>Properties of the input\<close>

text \<open>
  C33 (functional). A line is accepted by \<open>parse_line\<close>, with the coordinates \<open>x\<close> and
  \<open>y\<close>, exactly when it consists of two pieces around its only space and each
  piece, trimmed, parses as the respective number.
\<close>

theorem parse_line_accepts_iff:
  "parse_line s = Inr (x, y) \<longleftrightarrow>
     (\<exists>u v. s = u @ '' '' @ v \<and> CHR '' '' \<notin> set u \<and> CHR '' '' \<notin> set v \<and>
        parse_usize (trim u) = Inr x \<and> parse_usize (trim v) = Inr y)"
proof -
  let ?args = "split_char CHR '' '' s"
  have rhs: "(\<exists>u v. s = u @ '' '' @ v \<and> CHR '' '' \<notin> set u \<and> CHR '' '' \<notin> set v \<and>
        parse_usize (trim u) = Inr x \<and> parse_usize (trim v) = Inr y) \<longleftrightarrow>
      (\<exists>u v. ?args = [u, v] \<and> parse_usize (trim u) = Inr x \<and> parse_usize (trim v) = Inr y)"
    by (auto simp: split_char_eq_two_iff)
  show ?thesis
  proof (cases "length ?args = 2")
    case True
    then obtain u v where "?args = [u, v]"
      by (auto simp: length_Suc_conv numeral_2_eq_2)
    then show ?thesis
      unfolding rhs by (simp add: parse_line_def split: sum.splits)
  next
    case False
    then have "?args \<noteq> [u, v]" for u v by auto
    with False show ?thesis
      unfolding rhs by (simp add: parse_line_def)
  qed
qed

text \<open>
  C34 (error). "Incorrect number of arguments" is the answer to exactly the lines
  that do not have one space: the line is cut at every single space, so two
  numbers separated by two spaces or by a tabulator are refused, as is the
  empty line read at the end of the input.
\<close>

theorem wrong_arity_iff:
  "parse_line s = Inl WrongArity \<longleftrightarrow> count_list s CHR '' '' \<noteq> 1"
  by (auto simp: parse_line_def length_split_char Let_def split: sum.splits)

text \<open>
  C35 (functional). What \<^verbatim>\<open>trim()\<close> returns: the text is some white space, then the
  trimmed text, then some white space; the trimmed text neither starts nor ends
  with white space; and trimming it again changes nothing. So \<open>trim\<close> removes all
  the white space at both ends and nothing else.
\<close>

theorem trim_spec:
  "(\<exists>pre post. set pre \<subseteq> set white_space \<and> set post \<subseteq> set white_space \<and>
      s = concat pre @ trim s @ concat post) \<and>
   list_all (\<lambda>p. \<not> starts_with (trim s) p \<and> \<not> ends_with (trim s) p) white_space \<and>
   trim (trim s) = trim s"
proof (intro conjI)
  show "\<exists>pre post. set pre \<subseteq> set white_space \<and> set post \<subseteq> set white_space \<and>
      s = concat pre @ trim s @ concat post"
    by (rule trim_removes)
  show "list_all (\<lambda>p. \<not> starts_with (trim s) p \<and> \<not> ends_with (trim s) p) white_space"
    by (simp add: list_all_iff trim_no_white_space_at_ends)
  show "trim (trim s) = trim s" by simp
qed

text \<open>
  C36 (functional). \<open>parse_usize\<close> accepts exactly the non-empty texts that are decimal
  digits after an optional \<^verbatim>\<open>+\<close>, at least one digit, whose value is below
  \<open>2 ^ 64\<close>; the result is that value.
\<close>

theorem parse_usize_accepts_iff:
  "parse_usize s = Inr v \<longleftrightarrow>
     s \<noteq> [] \<and>
     (let d = (if hd s = CHR ''+'' then tl s else s) in
      d \<noteq> [] \<and> all_digits d \<and> digits_value 0 d < 2 ^ 64 \<and> v = of_nat (digits_value 0 d))"
proof (cases "s = [] \<or> s = ''+'' \<or> s = ''-''")
  case True
  then show ?thesis
    by (auto simp: parse_usize_def all_digits_def to_digit_def)
next
  case False
  let ?d = "if hd s = CHR ''+'' then tl s else s"
  from False have d: "?d \<noteq> []" by (cases s) auto
  have "parse_usize s = Inr v \<longleftrightarrow> (\<exists>r. parse_digits 0 ?d = Inr r \<and> v = of_nat r)"
    using False by (cases "parse_digits 0 ?d") (auto simp: parse_usize_def)
  with False d show ?thesis
    by (auto simp: parse_digits_Inr_iff Let_def)
qed

text \<open>
  C37 (error). A number that does not fit into 64 bits is refused as too large,
  not wrapped around: the decimal text of every number from \<open>2 ^ 64\<close> on gives
  \<open>PosOverflow\<close>.
\<close>

theorem parse_usize_too_large:
  assumes "2 ^ 64 \<le> n"
  shows "parse_usize (show_dec n) = Inl PosOverflow"
proof (cases "parse_digits 0 (show_dec n)")
  case (Inl e)
  with parse_digits_error [OF Inl] show ?thesis
    by (simp add: parse_usize_def show_dec_not_sign hd_show_dec_not_plus all_digits_show_dec)
next
  case (Inr r)
  with assms show ?thesis
    by (simp add: parse_digits_Inr_iff digits_value_show_dec)
qed

theorem parse_usize_too_large_witness:
  "(2::nat) ^ 64 \<le> 18446744073709551616 \<and>
   parse_usize ''18446744073709551616'' = Inl PosOverflow"
  using parse_usize_too_large [of 18446744073709551616] by (simp add: exec_eval)

text \<open>
  C38 (roundtrip). The line a player is expected to type is accepted: two numbers
  below \<open>2 ^ 64\<close> in decimal, one space between them and the line break at the
  end, give these two numbers as coordinates.
\<close>

theorem written_line_accepted:
  assumes "c < 2 ^ 64" and "r < 2 ^ 64"
  shows "map_sum id (map_prod unat unat)
      (parse_line (show_dec c @ '' '' @ show_dec r @ ''\<newline>'')) = Inr (c, r)"
  using parse_line_show_dec [OF assms] assms by (simp add: unat_of_nat)

theorem written_line_accepted_witness:
  "(2::nat) < 2 ^ 64 \<and> (0::nat) < 2 ^ 64 \<and>
   map_sum id (map_prod unat unat) (parse_line ''2 0\<newline>'') = Inr (2, 0)"
  using written_line_accepted [of 2 0] by (simp add: exec_eval)

end
