(* ===== verification/TTT_Game.thy ===== *)
theory TTT_Game
  imports TTT_Board TTT_Input TTT_Play
begin

text \<open>
  The turn loop: \<^verbatim>\<open>fn main\<close> of \<^verbatim>\<open>src/src/main.rs\<close> (lines 121-174).

  \<^item> \<open>Game\<close> holds the local variables of \<^verbatim>\<open>main\<close> that live across iterations
    (\<^verbatim>\<open>board\<close>, \<^verbatim>\<open>playerState\<close>, \<^verbatim>\<open>gameState\<close>) and \<open>stdout\<close>, the texts given to
    \<^verbatim>\<open>println!\<close> so far, oldest first. The buffer \<^verbatim>\<open>userInput\<close> is cleared before
    every read, so it is the line read and needs no field.
  \<^item> \<open>read_result\<close> is what \<^verbatim>\<open>stdin.read_line\<close> gives: \<open>ReadOk s\<close> with the line \<open>s\<close>,
    its line break included, or \<open>ReadErr\<close>. The standard input is a list of such
    results; \<open>next_read\<close> takes the next one, and gives the empty line for ever once
    the list is used up, which is what \<^verbatim>\<open>read_line\<close> does at the end of the input.
  \<^item> \<open>prompt\<close> and \<open>next_player\<close> are the two \<^verbatim>\<open>match playerState\<close>, whose third arm
    is \<^verbatim>\<open>unreachable!()\<close>, the panic \<open>Unreachable\<close>.
  \<^item> \<open>turn g r\<close> is one iteration of the \<^verbatim>\<open>while\<close> loop in the state \<open>g\<close> when the read
    gives \<open>r\<close>; every \<^verbatim>\<open>continue\<close> is a branch that returns the state.
  \<^item> \<open>main_loop fuel stdin g\<close> is the \<^verbatim>\<open>while\<close> loop, which may run for ever: \<open>None\<close>
    says that \<open>fuel\<close> iterations did not end it, \<open>Some (Inl p)\<close> that it panicked,
    \<open>Some (Inr g')\<close> that it ended in the state \<open>g'\<close>. \<open>main\<close> adds the last
    \<^verbatim>\<open>println!\<close> and returns what was printed.

  The loop is related to the state machine of \<open>TTT_Play\<close> by \<open>abs_game\<close>, which
  forgets the output, and \<open>request\<close>, the coordinates a read asks for, if any.
  \<open>well_typed\<close> is the typing of a state (nine cells, a player to move), kept by
  every iteration whatever the board holds. \<open>turn_play\<close> says that one iteration
  is one \<open>play\<close>; from it follow the invariant \<open>game_inv\<close> of the reachable states,
  the absence of panics, and the exact condition under which the loop ends.
  \<open>loop_ends\<close> is the loop without fuel, as an inductive relation between the
  state at its start and the way it ends. \<open>narrate\<close> is the output the rules prescribe for a list of reads: the board and
  the prompt before each read while the game is in progress, and the message of
  a refused line; \<open>main_loop_transcript\<close> says that the loop prints exactly that.
  \<open>reads n stdin\<close> are the results of the first \<open>n\<close> calls of \<^verbatim>\<open>read_line\<close>, the empty
  line from the end of the input on; \<open>main_narrate\<close> gives the result of \<open>main\<close> for
  every amount of fuel in terms of them.
\<close>

datatype read_result = ReadOk string | ReadErr

record Game =
  board :: TicTacToeBoard
  playerState :: BoardCell
  gameState :: GameState
  stdout :: "string list"

definition println :: "string \<Rightarrow> Game \<Rightarrow> Game" where
  "println s g = g\<lparr>stdout := stdout g @ [s]\<rparr>"

definition initial_game :: Game where
  "initial_game =
     \<lparr>board = default_board, playerState = X, gameState = InProgress, stdout = []\<rparr>"

definition prompt :: "BoardCell \<Rightarrow> string exec" where
  "prompt p =
     (case p of
        X \<Rightarrow> Inr ''Player 1: ''
      | O_cell \<Rightarrow> Inr ''Player 2: ''
      | None_cell \<Rightarrow> Inl Unreachable)"

definition next_player :: "BoardCell \<Rightarrow> BoardCell exec" where
  "next_player p =
     (case p of
        X \<Rightarrow> Inr O_cell
      | O_cell \<Rightarrow> Inr X
      | None_cell \<Rightarrow> Inl Unreachable)"

definition turn :: "Game \<Rightarrow> read_result \<Rightarrow> Game exec" where
  "turn g input =
     pbind (fmt_TicTacToeBoard (board g)) (\<lambda>shown.
     pbind (prompt (playerState g)) (\<lambda>asked.
       let g = println asked (println shown g) in
       case input of
         ReadErr \<Rightarrow> Inr g
       | ReadOk userInput \<Rightarrow>
           (case parse_line userInput of
              Inl e \<Rightarrow> Inr (println (fmt_line_error e) g)
            | Inr (x, y) \<Rightarrow>
                pbind (changeState (board g) (playerState g) (x, y)) (\<lambda>(r, b).
                  case r of
                    Inl e \<Rightarrow> Inr (println (fmt_BoardError e) (g\<lparr>board := b\<rparr>))
                  | Inr state \<Rightarrow>
                      pbind (next_player (playerState g)) (\<lambda>p.
                        Inr (g\<lparr>board := b, gameState := state, playerState := p\<rparr>))))))"

fun next_read :: "read_result list \<Rightarrow> read_result \<times> read_result list" where
  "next_read [] = (ReadOk [], [])"
| "next_read (r # rs) = (r, rs)"

fun main_loop :: "nat \<Rightarrow> read_result list \<Rightarrow> Game \<Rightarrow> Game exec option" where
  "main_loop fuel stdin g =
     (case gameState g of
        End _ \<Rightarrow> Some (Inr g)
      | InProgress \<Rightarrow>
          (case fuel of
             0 \<Rightarrow> None
           | Suc fuel' \<Rightarrow>
               (case turn g (fst (next_read stdin)) of
                  Inl p \<Rightarrow> Some (Inl p)
                | Inr g' \<Rightarrow> main_loop fuel' (snd (next_read stdin)) g')))"

definition main :: "nat \<Rightarrow> read_result list \<Rightarrow> string list exec option" where
  "main fuel stdin =
     map_option
       (\<lambda>r. pbind r (\<lambda>g. Inr (stdout (println (fmt_GameState (gameState g)) g))))
       (main_loop fuel stdin initial_game)"

subsection \<open>The loop seen from the rules\<close>

definition abs_game :: "Game \<Rightarrow> position" where
  "abs_game g =
     \<lparr>squares = cells (board g), to_move = playerState g, status = gameState g\<rparr>"

definition conc_game :: "position \<Rightarrow> string list \<Rightarrow> Game" where
  "conc_game p out =
     \<lparr>board = \<lparr>cells = squares p\<rparr>, playerState = to_move p, gameState = status p,
      stdout = out\<rparr>"

definition game_inv :: "Game \<Rightarrow> bool" where
  "game_inv g \<longleftrightarrow> legal (abs_game g)"

definition request :: "read_result \<Rightarrow> (nat \<times> nat) option" where
  "request r =
     (case r of
        ReadErr \<Rightarrow> None
      | ReadOk s \<Rightarrow>
          (case parse_line s of Inl e \<Rightarrow> None | Inr (x, y) \<Rightarrow> Some (unat x, unat y)))"

definition requests :: "read_result list \<Rightarrow> (nat \<times> nat) list" where
  "requests rs = List.map_filter request rs"

definition play_request :: "position \<Rightarrow> (nat \<times> nat) option \<Rightarrow> position" where
  "play_request p q = (case q of None \<Rightarrow> p | Some (c, r) \<Rightarrow> play p c r)"

definition feedback :: "position \<Rightarrow> read_result \<Rightarrow> string list" where
  "feedback p r =
     (case r of
        ReadErr \<Rightarrow> []
      | ReadOk s \<Rightarrow>
          (case parse_line s of
             Inl e \<Rightarrow> [fmt_line_error e]
           | Inr (x, y) \<Rightarrow>
               (case apply_move (squares p) (to_move p) (unat x) (unat y) of
                  Inl e \<Rightarrow> [fmt_BoardError e]
                | Inr _ \<Rightarrow> [])))"

definition announce :: "BoardCell \<Rightarrow> string" where
  "announce p = (if p = X then ''Player 1: '' else ''Player 2: '')"

definition well_typed :: "Game \<Rightarrow> bool" where
  "well_typed g \<longleftrightarrow> wf_board (board g) \<and> is_mark (playerState g)"

fun narrate :: "position \<Rightarrow> read_result list \<Rightarrow> string list" where
  "narrate p [] = []"
| "narrate p (r # rs) =
     (case status p of
        End w \<Rightarrow> []
      | InProgress \<Rightarrow>
          [render (squares p), announce (to_move p)] @ feedback p r @
          narrate (play_request p (request r)) rs)"

fun reads :: "nat \<Rightarrow> read_result list \<Rightarrow> read_result list" where
  "reads 0 stdin = []"
| "reads (Suc n) stdin = fst (next_read stdin) # reads n (snd (next_read stdin))"

inductive reachable :: "Game \<Rightarrow> bool" where
  reachable_init: "reachable initial_game"
| reachable_turn:
    "reachable g \<Longrightarrow> gameState g = InProgress \<Longrightarrow> turn g r = Inr g' \<Longrightarrow> reachable g'"

inductive_cases reachableE: "reachable g"

inductive loop_ends :: "read_result list \<Rightarrow> Game \<Rightarrow> Game exec \<Rightarrow> bool" where
  loop_exit: "gameState g = End w \<Longrightarrow> loop_ends stdin g (Inr g)"
| loop_panic:
    "gameState g = InProgress \<Longrightarrow> turn g (fst (next_read stdin)) = Inl p \<Longrightarrow>
     loop_ends stdin g (Inl p)"
| loop_iterate:
    "gameState g = InProgress \<Longrightarrow> turn g (fst (next_read stdin)) = Inr g' \<Longrightarrow>
     loop_ends (snd (next_read stdin)) g' res \<Longrightarrow> loop_ends stdin g res"

inductive_cases loop_endsE: "loop_ends stdin g res"

lemmas game_defs =
  println_def initial_game_def prompt_def next_player_def turn_def main_def

lemmas game_abs_defs =
  abs_game_def conc_game_def game_inv_def request_def requests_def play_request_def
  feedback_def announce_def well_typed_def

lemmas [exec_eval] = game_defs game_abs_defs List.map_filter_def main_loop.simps

subsection \<open>Printing and prompting\<close>

lemma println_simps [simp]:
  "board (println s g) = board g"
  "playerState (println s g) = playerState g"
  "gameState (println s g) = gameState g"
  "stdout (println s g) = stdout g @ [s]"
  by (simp_all add: println_def)

lemma initial_game_simps [simp]:
  "board initial_game = default_board" "playerState initial_game = X"
  "gameState initial_game = InProgress" "stdout initial_game = []"
  by (simp_all add: initial_game_def)

lemma abs_game_println [simp]: "abs_game (println s g) = abs_game g"
  by (simp add: abs_game_def)

lemma prompt_ok [exec_ok]: "is_mark p \<Longrightarrow> prompt p = Inr (announce p)"
  by (cases p) (simp_all add: prompt_def announce_def)

lemma next_player_ok [exec_ok]: "is_mark p \<Longrightarrow> next_player p = Inr (other p)"
  by (cases p) (simp_all add: next_player_def)

lemma prompt_panic_iff: "prompt p = Inl e \<longleftrightarrow> p = None_cell \<and> e = Unreachable"
  by (cases p) (auto simp: prompt_def)

lemma next_player_panic_iff: "next_player p = Inl e \<longleftrightarrow> p = None_cell \<and> e = Unreachable"
  by (cases p) (auto simp: next_player_def)

subsection \<open>Abstraction\<close>

lemma abs_game_simps [simp]:
  "squares (abs_game g) = cells (board g)"
  "to_move (abs_game g) = playerState g"
  "status (abs_game g) = gameState g"
  by (simp_all add: abs_game_def)

lemma abs_conc_game [simp]: "abs_game (conc_game p out) = p"
  by (simp add: abs_game_def conc_game_def)

lemma conc_abs_game [simp]: "conc_game (abs_game g) (stdout g) = g"
  by (simp add: abs_game_def conc_game_def)

lemma conc_game_simps [simp]:
  "cells (board (conc_game p out)) = squares p"
  "playerState (conc_game p out) = to_move p"
  "gameState (conc_game p out) = status p"
  "stdout (conc_game p out) = out"
  by (simp_all add: conc_game_def)

lemma Game_eqI:
  "abs_game g = abs_game g' \<Longrightarrow> stdout g = stdout g' \<Longrightarrow> g = g'"
  by (metis conc_abs_game)

lemma abs_initial_game [simp]: "abs_game initial_game = start"
  by (simp add: abs_game_def initial_game_def start_def default_board_def empty_grid_def)

lemma game_inv_initial: "game_inv initial_game"
  by (simp add: game_inv_def legal_start)

lemma game_inv_wf_board: "game_inv g \<Longrightarrow> wf_board (board g)"
  by (simp add: game_inv_def legal_def wf_board_def)

lemma game_inv_is_mark: "game_inv g \<Longrightarrow> is_mark (playerState g)"
  by (simp add: game_inv_def legal_def)

lemma game_inv_no_line:
  "game_inv g \<Longrightarrow> gameState g = InProgress \<Longrightarrow> \<not> wins (cells (board g)) (playerState g)"
  by (auto simp: game_inv_def legal_def dest!: is_mark_cases)

lemma play_request_simps [simp]:
  "play_request p None = p"
  "play_request p (Some (c, r)) = play p c r"
  by (simp_all add: play_request_def)

lemma requests_simps [simp]:
  "requests [] = []"
  "requests (r # rs) = (case request r of None \<Rightarrow> requests rs | Some q \<Rightarrow> q # requests rs)"
  by (simp_all add: requests_def List.map_filter_def split: option.splits)

lemma request_eof [simp]: "request (ReadOk []) = None"
  by (simp add: request_def parse_line_def)

lemma request_ReadErr [simp]: "request ReadErr = None"
  by (simp add: request_def)

lemma requests_next_read:
  "requests (fst (next_read stdin) # snd (next_read stdin)) = requests stdin"
  by (cases stdin) simp_all

subsection \<open>One iteration\<close>

lemma changeState_in_game:
  assumes "game_inv g" and "gameState g = InProgress"
  shows "changeState (board g) (playerState g) (x, y) =
    Inr (board_result (board g)
          (apply_move (cells (board g)) (playerState g) (unat x) (unat y)))"
  using assms
  by (auto simp: changeState_local game_inv_wf_board apply_move_def usize_ge_3_iff not_le
      outcome_eq_local_outcome game_inv_no_line)

lemma turn_play:
  assumes "game_inv g" and "gameState g = InProgress"
  shows "turn g r =
    Inr (conc_game (play_request (abs_game g) (request r))
          (stdout g @ [render (cells (board g)), announce (playerState g)] @
           feedback (abs_game g) r))"
proof (cases "request r")
  case None
  with assms show ?thesis
    by (auto simp: turn_def fmt_TicTacToeBoard_ok game_inv_wf_board prompt_ok game_inv_is_mark
        Let_def request_def feedback_def conc_game_def println_def
        split: read_result.splits sum.splits prod.splits)
next
  case (Some q)
  then obtain s x y where r: "r = ReadOk s" "parse_line s = Inr (x, y)" "q = (unat x, unat y)"
    by (auto simp: request_def split: read_result.splits sum.splits prod.splits)
  with assms Some show ?thesis
    by (cases "apply_move (cells (board g)) (playerState g) (unat x) (unat y)")
      (auto simp: turn_def fmt_TicTacToeBoard_ok game_inv_wf_board prompt_ok game_inv_is_mark
        next_player_ok changeState_in_game Let_def feedback_def play_def conc_game_def
        println_def)
qed

lemma legal_play_request: "legal p \<Longrightarrow> legal (play_request p q)"
  by (cases q) (auto simp: legal_play)

lemma turn_abs:
  "game_inv g \<Longrightarrow> gameState g = InProgress \<Longrightarrow> turn g r = Inr g' \<Longrightarrow>
   abs_game g' = play_request (abs_game g) (request r)"
  by (auto simp: turn_play)

lemma turn_stdout:
  "game_inv g \<Longrightarrow> gameState g = InProgress \<Longrightarrow> turn g r = Inr g' \<Longrightarrow>
   stdout g' = stdout g @ [render (cells (board g)), announce (playerState g)] @
     feedback (abs_game g) r"
  by (auto simp: turn_play)

lemma turn_game_inv:
  "game_inv g \<Longrightarrow> gameState g = InProgress \<Longrightarrow> turn g r = Inr g' \<Longrightarrow> game_inv g'"
  by (auto simp: turn_play game_inv_def legal_play_request)

lemma reachable_game_inv: "reachable g \<Longrightarrow> game_inv g"
  by (induction rule: reachable.induct) (auto simp: game_inv_initial turn_game_inv)

lemma turn_rejected:
  assumes "game_inv g" and "gameState g = InProgress"
    and "\<forall>c r'. request r = Some (c, r') \<longrightarrow> \<not> accepts (abs_game g) c r'"
  shows "turn g r = Inr (g\<lparr>stdout := stdout g @ [render (cells (board g)),
      announce (playerState g)] @ feedback (abs_game g) r\<rparr>)"
proof -
  from assms(3) have "play_request (abs_game g) (request r) = abs_game g"
    by (cases "request r") (auto simp: play_rejected)
  with assms(1,2) show ?thesis
    by (simp add: turn_play conc_game_def)
qed

subsection \<open>Type safety\<close>

lemma well_typed_initial: "well_typed initial_game"
  by (simp add: well_typed_def initial_game_def wf_default_board)

lemma game_inv_well_typed: "game_inv g \<Longrightarrow> well_typed g"
  by (simp add: well_typed_def game_inv_wf_board game_inv_is_mark)


lemma turn_well_typed:
  assumes "well_typed g"
  shows "\<exists>g'. turn g r = Inr g' \<and> well_typed g'"
proof -
  from assms have wf: "wf_board (board g)" and m: "is_mark (playerState g)"
    by (simp_all add: well_typed_def)
  have cs: "\<exists>res b'. changeState (board g) (playerState g) (x, y) = Inr (res, b') \<and> wf_board b'"
    for x y
    using wf by (rule changeState_returns)
  show ?thesis
  proof (cases r)
    case ReadErr
    with wf m show ?thesis
      by (simp add: turn_def fmt_TicTacToeBoard_ok prompt_ok well_typed_def)
  next
    case (ReadOk s)
    show ?thesis
    proof (cases "parse_line s")
      case (Inl e)
      with ReadOk wf m show ?thesis
        by (simp add: turn_def fmt_TicTacToeBoard_ok prompt_ok well_typed_def)
    next
      case (Inr xy)
      obtain x y where xy: "xy = (x, y)" by (cases xy)
      from cs [of x y] obtain res b' where
        "changeState (board g) (playerState g) (x, y) = Inr (res, b')" "wf_board b'"
        by blast
      with ReadOk Inr xy wf m show ?thesis
        by (cases res)
          (auto simp: turn_def fmt_TicTacToeBoard_ok prompt_ok next_player_ok well_typed_def
            dest!: is_mark_cases)
    qed
  qed
qed

lemma reachable_well_typed: "reachable g \<Longrightarrow> well_typed g"
proof (induction rule: reachable.induct)
  case reachable_init
  show ?case by (rule well_typed_initial)
next
  case (reachable_turn g r g')
  with turn_well_typed [of g r] show ?case by auto
qed

subsection \<open>The loop\<close>

lemma main_loop_ended [simp]: "gameState g = End w \<Longrightarrow> main_loop fuel stdin g = Some (Inr g)"
  by simp

lemma main_loop_0 [simp]: "gameState g = InProgress \<Longrightarrow> main_loop 0 stdin g = None"
  by simp

lemma main_loop_Suc:
  "gameState g = InProgress \<Longrightarrow>
   main_loop (Suc fuel) stdin g =
     (case turn g (fst (next_read stdin)) of
        Inl p \<Rightarrow> Some (Inl p)
      | Inr g' \<Rightarrow> main_loop fuel (snd (next_read stdin)) g')"
  by simp

declare main_loop.simps [simp del]

lemma main_loop_step:
  assumes "game_inv g" and "gameState g = InProgress"
  shows "main_loop (Suc fuel) stdin g =
    main_loop fuel (snd (next_read stdin))
      (conc_game (play_request (abs_game g) (request (fst (next_read stdin))))
         (stdout g @ [render (cells (board g)), announce (playerState g)] @
          feedback (abs_game g) (fst (next_read stdin))))"
  using assms by (simp add: main_loop_Suc turn_play)

lemma play_all_requests_step:
  "play_all (play_request p (request r)) (requests rs) = play_all p (requests (r # rs))"
  by (cases "request r") auto

lemma main_loop_diverges:
  assumes "game_inv g"
    and "status (play_all (abs_game g) (requests stdin)) = InProgress"
  shows "main_loop fuel stdin g = None"
  using assms
proof (induction fuel arbitrary: g stdin)
  case 0
  then show ?case by (cases "gameState g") simp_all
next
  case (Suc fuel)
  let ?r = "fst (next_read stdin)" and ?rs = "snd (next_read stdin)"
  from Suc.prems have run: "gameState g = InProgress"
    by (cases "gameState g") simp_all
  let ?g = "conc_game (play_request (abs_game g) (request ?r))
    (stdout g @ [render (cells (board g)), announce (playerState g)] @ feedback (abs_game g) ?r)"
  from Suc.prems(1) have "game_inv ?g"
    by (simp add: game_inv_def legal_play_request)
  moreover from Suc.prems(2) have "status (play_all (abs_game ?g) (requests ?rs)) = InProgress"
    by (simp add: play_all_requests_step requests_next_read del: requests_simps)
  ultimately have "main_loop fuel ?rs ?g = None" by (rule Suc.IH)
  with Suc.prems(1) run show ?case by (simp add: main_loop_step)
qed

lemma narrate_ended [simp]: "status p = End w \<Longrightarrow> narrate p rs = []"
  by (cases rs) simp_all

lemma main_loop_transcript:
  assumes "game_inv g" and "length stdin \<le> fuel"
    and "status (play_all (abs_game g) (requests stdin)) = End w"
  shows "main_loop fuel stdin g =
    Some (Inr (conc_game (play_all (abs_game g) (requests stdin))
                 (stdout g @ narrate (abs_game g) stdin)))"
  using assms
proof (induction stdin arbitrary: g fuel)
  case Nil
  then show ?case by simp
next
  case (Cons r rs)
  show ?case
  proof (cases "gameState g")
    case (End v)
    then have "status (abs_game g) = End v" by simp
    with End show ?thesis by (simp del: requests_simps abs_game_simps)
  next
    case InProgress
    from Cons.prems(2) obtain fuel' where fuel: "fuel = Suc fuel'" "length rs \<le> fuel'"
      by (cases fuel) auto
    let ?g = "conc_game (play_request (abs_game g) (request r))
      (stdout g @ [render (cells (board g)), announce (playerState g)] @ feedback (abs_game g) r)"
    from Cons.prems(1) have "game_inv ?g"
      by (simp add: game_inv_def legal_play_request)
    moreover from Cons.prems(3) have "status (play_all (abs_game ?g) (requests rs)) = End w"
      by (simp add: play_all_requests_step del: requests_simps)
    ultimately have "main_loop fuel' rs ?g =
        Some (Inr (conc_game (play_all (abs_game ?g) (requests rs))
                     (stdout ?g @ narrate (abs_game ?g) rs)))"
      using fuel(2) by (intro Cons.IH)
    with Cons.prems(1) InProgress fuel(1) show ?thesis
      by (simp add: main_loop_step play_all_requests_step del: requests_simps)
  qed
qed

lemma main_loop_ends:
  assumes "game_inv g" and "length stdin \<le> fuel"
    and "status (play_all (abs_game g) (requests stdin)) = End w"
  shows "\<exists>g'. main_loop fuel stdin g = Some (Inr g') \<and>
    abs_game g' = play_all (abs_game g) (requests stdin)"
  using main_loop_transcript [OF assms] by simp

lemma main_loop_Some:
  assumes "game_inv g" and "main_loop fuel stdin g = Some res"
  shows "\<exists>g'. res = Inr g' \<and> game_inv g' \<and> gameState g' \<noteq> InProgress \<and>
    abs_game g' = play_all (abs_game g) (requests stdin)"
  using assms
proof (induction fuel arbitrary: g stdin)
  case 0
  then show ?case by (cases "gameState g") auto
next
  case (Suc fuel)
  show ?case
  proof (cases "gameState g")
    case (End v)
    then have "status (abs_game g) = End v" by simp
    with End Suc.prems show ?thesis by (auto simp del: abs_game_simps)
  next
    case InProgress
    let ?r = "fst (next_read stdin)" and ?rs = "snd (next_read stdin)"
    let ?g = "conc_game (play_request (abs_game g) (request ?r))
      (stdout g @ [render (cells (board g)), announce (playerState g)] @
       feedback (abs_game g) ?r)"
    from Suc.prems(1) have "game_inv ?g"
      by (simp add: game_inv_def legal_play_request)
    moreover from Suc.prems InProgress have "main_loop fuel ?rs ?g = Some res"
      by (simp add: main_loop_step)
    ultimately have "\<exists>g'. res = Inr g' \<and> game_inv g' \<and> gameState g' \<noteq> InProgress \<and>
        abs_game g' = play_all (abs_game ?g) (requests ?rs)"
      by (rule Suc.IH)
    then show ?thesis
      by (simp add: play_all_requests_step requests_next_read del: requests_simps)
  qed
qed

lemma main_loop_mono:
  "main_loop fuel stdin g = Some res \<Longrightarrow> main_loop (fuel + k) stdin g = Some res"
proof (induction fuel arbitrary: g stdin)
  case 0
  then show ?case by (cases "gameState g") simp_all
next
  case (Suc fuel)
  then show ?case
    by (cases "gameState g"; cases "turn g (fst (next_read stdin))")
      (auto simp: main_loop_Suc)
qed

lemma loop_ends_main_loop: "loop_ends stdin g res \<Longrightarrow> \<exists>fuel. main_loop fuel stdin g = Some res"
proof (induction rule: loop_ends.induct)
  case (loop_exit g w stdin)
  then show ?case by simp
next
  case (loop_panic g stdin p)
  then have "main_loop (Suc 0) stdin g = Some (Inl p)" by (simp add: main_loop_Suc)
  then show ?case by blast
next
  case (loop_iterate g stdin g' res)
  then obtain fuel where "main_loop fuel (snd (next_read stdin)) g' = Some res" by blast
  with loop_iterate.hyps(1,2) have "main_loop (Suc fuel) stdin g = Some res"
    by (simp add: main_loop_Suc)
  then show ?case by blast
qed


lemma main_loop_deterministic:
  assumes "main_loop m stdin g = Some r" and "main_loop n stdin g = Some r'"
  shows "r = r'"
proof -
  from assms main_loop_mono [of m stdin g r n] main_loop_mono [of n stdin g r' m]
  show ?thesis by (simp add: add.commute)
qed

lemma loop_ends_deterministic:
  "loop_ends stdin g r \<Longrightarrow> loop_ends stdin g r' \<Longrightarrow> r = r'"
  by (auto dest!: loop_ends_main_loop dest: main_loop_deterministic)

lemma reachable_main_loop:
  "reachable g \<Longrightarrow> main_loop fuel stdin g = Some (Inr g') \<Longrightarrow> reachable g'"
proof (induction fuel arbitrary: g stdin)
  case 0
  then show ?case by (cases "gameState g") simp_all
next
  case (Suc fuel)
  show ?case
  proof (cases "gameState g")
    case (End v)
    with Suc.prems show ?thesis by simp
  next
    case InProgress
    with Suc.prems(2) obtain g1 where g1: "turn g (fst (next_read stdin)) = Inr g1"
      and rest: "main_loop fuel (snd (next_read stdin)) g1 = Some (Inr g')"
      by (auto simp: main_loop_Suc split: sum.splits)
    from Suc.prems(1) InProgress g1 have "reachable g1" by (rule reachable_turn)
    then show ?thesis using rest by (rule Suc.IH)
  qed
qed

lemma reachable_reached: "reachable g \<Longrightarrow> \<exists>n. reached n (abs_game g)"
proof (induction rule: reachable.induct)
  case reachable_init
  show ?case using reached_start by auto
next
  case (reachable_turn g r g')
  then obtain n where n: "reached n (abs_game g)" by auto
  from reachable_turn have abs: "abs_game g' = play_request (abs_game g) (request r)"
    by (simp add: turn_abs reachable_game_inv)
  show ?case
  proof (cases "request r")
    case None
    with abs n show ?thesis by auto
  next
    case (Some q)
    obtain c r' where q: "q = (c, r')" by (cases q)
    show ?thesis
    proof (cases "accepts (abs_game g) c r'")
      case True
      with n have "reached (Suc n) (play (abs_game g) c r')" by (rule reached_move)
      with abs Some q show ?thesis by auto
    next
      case False
      with abs Some q n show ?thesis by (auto simp: play_rejected)
    qed
  qed
qed

lemma main_eq:
  "main fuel stdin =
     map_option (map_sum id (\<lambda>g. stdout g @ [fmt_GameState (gameState g)]))
       (main_loop fuel stdin initial_game)"
  unfolding main_def
  by (rule option.map_cong) (auto simp: pbind_def split: sum.splits)

subsection \<open>Reachable states\<close>

lemma requests_append: "requests (rs @ rs') = requests rs @ requests rs'"
  by (simp add: requests_def List.map_filter_def)

lemma reachable_after:
  "\<exists>g. reachable g \<and> abs_game g = play_all start (requests stdin)"
proof (induction stdin rule: rev_induct)
  case Nil
  show ?case using reachable_init by (intro exI [of _ initial_game]) simp
next
  case (snoc r rs)
  then obtain g where g: "reachable g" "abs_game g = play_all start (requests rs)"
    by auto
  have step: "play_all start (requests (rs @ [r])) = play_request (abs_game g) (request r)"
    by (cases "request r") (auto simp: requests_append play_all_append g(2))
  show ?case
  proof (cases "gameState g")
    case InProgress
    with g(1) have "turn g r = Inr (conc_game (play_request (abs_game g) (request r))
      (stdout g @ [render (cells (board g)), announce (playerState g)] @
       feedback (abs_game g) r))" (is "_ = Inr ?g")
      by (simp add: turn_play reachable_game_inv)
    with g(1) InProgress have "reachable ?g" by (rule reachable_turn)
    with step show ?thesis by (intro exI [of _ ?g]) simp
  next
    case (End w)
    then have "status (abs_game g) = End w" by simp
    then have "play_request (abs_game g) (request r) = abs_game g"
      by (cases "request r") (auto simp del: abs_game_simps)
    with g(1) step show ?thesis by auto
  qed
qed

subsection \<open>The whole program\<close>

lemma main_diverges:
  "status (play_all start (requests stdin)) = InProgress \<Longrightarrow> main fuel stdin = None"
  using main_loop_diverges [OF game_inv_initial, of stdin fuel] by (simp add: main_def)

lemma main_ends:
  assumes "status (play_all start (requests stdin)) = End w" and "length stdin \<le> fuel"
  shows "\<exists>out. main fuel stdin = Some (Inr (out @ [fmt_GameState (End w)]))"
proof -
  from main_loop_ends [OF game_inv_initial assms(2), of w] assms(1) obtain g where
    "main_loop fuel stdin initial_game = Some (Inr g)"
    "abs_game g = play_all start (requests stdin)"
    by auto
  with assms(1) have "main_loop fuel stdin initial_game = Some (Inr g)" "gameState g = End w"
    by (simp_all add: abs_game_simps(3) [symmetric] del: abs_game_simps)
  then show ?thesis by (simp add: main_eq)
qed

lemma main_transcript_ends:
  assumes "status (play_all start (requests stdin)) = End w" and "length stdin \<le> fuel"
  shows "main fuel stdin = Some (Inr (narrate start stdin @ [fmt_GameState (End w)]))"
  using main_loop_transcript [OF game_inv_initial assms(2), of w] assms(1)
  by (simp add: main_eq)

lemma main_Some_eq:
  assumes "main fuel stdin = Some res"
  shows "res = Inr (narrate start stdin @
    [fmt_GameState (status (play_all start (requests stdin)))])"
proof (cases "status (play_all start (requests stdin))")
  case InProgress
  with assms show ?thesis by (simp add: main_diverges)
next
  case (End w)
  then have "main (length stdin) stdin =
      Some (Inr (narrate start stdin @ [fmt_GameState (End w)]))"
    by (rule main_transcript_ends) simp
  moreover have "main (length stdin + fuel) stdin = main (length stdin) stdin"
    "main (fuel + length stdin) stdin = main fuel stdin"
    using calculation assms main_loop_mono [of _ stdin initial_game]
    by (auto simp: main_def)
  ultimately show ?thesis using assms End by (simp add: add.commute)
qed

lemma request_show_dec:
  "c < 2 ^ 64 \<Longrightarrow> r < 2 ^ 64 \<Longrightarrow>
   request (ReadOk (show_dec c @ '' '' @ show_dec r @ ''\<newline>'')) = Some (c, r)"
  using parse_line_show_dec [of c r] by (simp add: request_def unat_of_nat)

subsection \<open>The first reads\<close>

lemma length_reads [simp]: "length (reads n stdin) = n"
  by (induction n arbitrary: stdin) simp_all

lemma reads_length: "reads (length stdin) stdin = stdin"
  by (induction stdin) simp_all

lemma reads_eof: "reads n [] = replicate n (ReadOk [])"
  by (induction n) simp_all

lemma reads_add: "reads (length stdin + k) stdin = stdin @ replicate k (ReadOk [])"
  by (induction stdin) (simp_all add: reads_eof)

lemma reads_ge:
  "length stdin \<le> n \<Longrightarrow> reads n stdin = stdin @ replicate (n - length stdin) (ReadOk [])"
  using reads_add [of stdin "n - length stdin"] by simp

lemma requests_eof [simp]: "requests (replicate k (ReadOk [])) = []"
  by (induction k) simp_all

lemma narrate_append_ended:
  "status (play_all p (requests rs)) = End w \<Longrightarrow> narrate p (rs @ rs') = narrate p rs"
proof (induction rs arbitrary: p)
  case Nil
  then show ?case by simp
next
  case (Cons r rs)
  from Cons.prems have "status (play_all (play_request p (request r)) (requests rs)) = End w"
    by (simp add: play_all_requests_step del: requests_simps)
  then have "narrate (play_request p (request r)) (rs @ rs') =
      narrate (play_request p (request r)) rs"
    by (rule Cons.IH)
  then show ?case by (simp split: GameState.splits)
qed

lemma play_all_in_progress:
  "status (play_all p ms) = InProgress \<Longrightarrow> status p = InProgress"
  by (cases "status p") simp_all

lemma reads_in_progress:
  "status (play_all p (requests stdin)) = InProgress \<Longrightarrow>
   status (play_all p (requests (reads n stdin))) = InProgress"
proof (induction n arbitrary: p stdin)
  case 0
  then show ?case by (auto dest: play_all_in_progress)
next
  case (Suc n)
  let ?r = "fst (next_read stdin)" and ?rest = "snd (next_read stdin)"
  from Suc.prems have "status (play_all p (requests (?r # ?rest))) = InProgress"
    by (simp only: requests_next_read)
  then have "status (play_all (play_request p (request ?r)) (requests ?rest)) = InProgress"
    by (simp only: play_all_requests_step)
  then have "status (play_all (play_request p (request ?r)) (requests (reads n ?rest))) =
      InProgress"
    by (rule Suc.IH)
  then show ?case by (simp add: play_all_requests_step del: requests_simps)
qed

lemma length_narrate:
  "status (play_all p (requests rs)) = InProgress \<Longrightarrow> 2 * length rs \<le> length (narrate p rs)"
proof (induction rs arbitrary: p)
  case Nil
  show ?case by simp
next
  case (Cons r rs)
  from Cons.prems have run: "status (play_all (play_request p (request r)) (requests rs)) =
      InProgress"
    by (simp add: play_all_requests_step del: requests_simps)
  from Cons.prems have "status p = InProgress" by (rule play_all_in_progress)
  with Cons.IH [OF run] show ?case by simp
qed

lemma next_read_reads [simp]:
  "next_read (reads (Suc n) stdin) = (fst (next_read stdin), reads n (snd (next_read stdin)))"
  by simp

lemma main_loop_reads: "main_loop n (reads n stdin) g = main_loop n stdin g"
proof (induction n arbitrary: g stdin)
  case 0
  show ?case by (cases "gameState g") simp_all
next
  case (Suc n)
  show ?case
  proof (cases "gameState g")
    case (End w)
    then show ?thesis by simp
  next
    case InProgress
    with Suc.IH show ?thesis
      by (simp add: main_loop_Suc del: reads.simps split: sum.splits)
  qed
qed

lemma main_narrate:
  "main n stdin =
     (case status (play_all start (requests (reads n stdin))) of
        End w \<Rightarrow> Some (Inr (narrate start (reads n stdin) @ [fmt_GameState (End w)]))
      | InProgress \<Rightarrow> None)"
proof -
  have "main n stdin = main n (reads n stdin)"
    by (simp add: main_eq main_loop_reads)
  also have "\<dots> = (case status (play_all start (requests (reads n stdin))) of
        End w \<Rightarrow> Some (Inr (narrate start (reads n stdin) @ [fmt_GameState (End w)]))
      | InProgress \<Rightarrow> None)"
    by (cases "status (play_all start (requests (reads n stdin)))")
      (simp_all add: main_diverges main_transcript_ends)
  finally show ?thesis .
qed

section \<open>Properties of the turn loop\<close>

text \<open>
  C2 (refinement). One iteration of the loop is one request to the game of the
  rules. In a state that satisfies the invariant and is in progress, \<open>turn\<close> does
  not panic, and the board, the player to move and the game state after it are
  those that \<open>play\<close> gives for the coordinates the line asks for; a line that asks
  for none (a read error, a wrong number of pieces, a piece that is no number)
  leaves all three unchanged.
\<close>

theorem turn_refines:
  assumes "game_inv g" and "gameState g = InProgress"
  shows "\<exists>g'. turn g r = Inr g' \<and> abs_game g' = play_request (abs_game g) (request r)"
  using assms by (simp add: turn_play)

theorem turn_refines_witness:
  "game_inv initial_game \<and> gameState initial_game = InProgress \<and>
   (\<exists>g'. turn initial_game (ReadOk ''1 1\<newline>'') = Inr g' \<and>
      abs_game g' =
        \<lparr>squares = [None_cell, None_cell, None_cell, None_cell, X, None_cell,
                     None_cell, None_cell, None_cell],
         to_move = O_cell, status = InProgress\<rparr>)"
  using turn_refines [of initial_game "ReadOk ''1 1\<newline>''"]
  by (simp add: exec_eval)

text \<open>
  C3 (type). The loop is type safe. Call a state well typed when its board has
  nine cells and its player to move is \<open>X\<close> or \<open>O_cell\<close>, whatever the marks on the
  board and the game state are. From a well-typed state an iteration never
  panics, whatever is read: the board is displayed without an index out of
  range, neither \<^verbatim>\<open>unreachable!()\<close> is reached, and \<open>changeState\<close> returns. The state
  the iteration leaves is well typed again; the initial state is well typed, and
  so is every state the program can reach.
\<close>

theorem turn_type_safe:
  "well_typed initial_game \<and>
   (well_typed g \<longrightarrow> (\<exists>g'. turn g r = Inr g' \<and> well_typed g')) \<and>
   (reachable g \<longrightarrow> well_typed g)"
  by (simp add: well_typed_initial turn_well_typed reachable_well_typed)

theorem turn_type_safe_witness:
  "well_typed
     \<lparr>board = \<lparr>cells = [X, X, X, X, X, X, X, X, None_cell]\<rparr>, playerState = O_cell,
      gameState = End X, stdout = []\<rparr> \<and>
   turn \<lparr>board = \<lparr>cells = [X, X, X, X, X, X, X, X, None_cell]\<rparr>, playerState = O_cell,
         gameState = End X, stdout = []\<rparr> (ReadOk ''2 2\<newline>'') =
     Inr \<lparr>board = \<lparr>cells = [X, X, X, X, X, X, X, X, O_cell]\<rparr>, playerState = X,
          gameState = End None_cell,
          stdout = [''X|X|X\<newline>-+-+-\<newline>X|X|X\<newline>-+-+-\<newline>X|X| \<newline>'', ''Player 2: '']\<rparr>"
  using turn_type_safe
    [of "\<lparr>board = \<lparr>cells = [X, X, X, X, X, X, X, X, None_cell]\<rparr>, playerState = O_cell,
         gameState = End X, stdout = []\<rparr>" "ReadOk ''2 2\<newline>''"]
  by (simp add: exec_eval)

text \<open>
  C23 (invariant). The players alternate: in every reachable state \<open>X\<close> has as many
  marks on the board as \<open>O_cell\<close> when \<open>X\<close> is to move, and one more when \<open>O_cell\<close> is
  to move.
\<close>

theorem reachable_marks_alternate:
  "reachable g \<Longrightarrow>
   count_list (cells (board g)) X =
     count_list (cells (board g)) O_cell + (if playerState g = O_cell then 1 else 0)"
  using reachable_game_inv [of g] by (simp add: game_inv_def legal_def)

theorem reachable_marks_alternate_witness:
  "\<exists>g. reachable g \<and> playerState g = O_cell \<and>
     cells (board g) = [None_cell, None_cell, None_cell, None_cell, X, None_cell,
                         None_cell, None_cell, None_cell] \<and>
     count_list (cells (board g)) X = count_list (cells (board g)) O_cell + 1"
proof -
  obtain g where g: "reachable g"
    "abs_game g = play_all start (requests [ReadOk ''1 1\<newline>''])"
    using reachable_after by blast
  from g(2) have "playerState g = O_cell \<and>
      cells (board g) = [None_cell, None_cell, None_cell, None_cell, X, None_cell,
                          None_cell, None_cell, None_cell]"
    by (simp add: exec_eval)
  with g(1) reachable_marks_alternate [of g] show ?thesis
    by (intro exI [of _ g]) simp
qed

text \<open>
  C10 (safety). A win is announced only when it is on the board: in a reachable
  state whose game state is \<open>End w\<close> for a player \<open>w\<close>, that player has a complete
  line, the opponent has none, and it was \<open>w\<close> who moved last.
\<close>

theorem winner_has_line:
  assumes "reachable g" and "gameState g = End w" and "is_mark w"
  shows "wins (cells (board g)) w \<and> \<not> wins (cells (board g)) (other w) \<and>
    playerState g = other w"
  using reachable_game_inv [OF assms(1)] assms(2,3) by (simp add: game_inv_def legal_def)

theorem winner_has_line_witness:
  "\<exists>g. reachable g \<and> gameState g = End X \<and> is_mark X \<and>
     cells (board g) = [X, X, X, O_cell, O_cell, None_cell, None_cell, None_cell, None_cell] \<and>
     wins (cells (board g)) X \<and> \<not> wins (cells (board g)) (other X) \<and>
     playerState g = other X"
proof -
  obtain g where g: "reachable g"
    "abs_game g = play_all start (requests [ReadOk ''0 0\<newline>'', ReadOk ''0 1\<newline>'',
       ReadOk ''1 0\<newline>'', ReadOk ''1 1\<newline>'', ReadOk ''2 0\<newline>''])"
    using reachable_after by blast
  from g(2) have "gameState g = End X \<and>
      cells (board g) = [X, X, X, O_cell, O_cell, None_cell, None_cell, None_cell, None_cell]"
    by (simp add: exec_eval)
  with g(1) winner_has_line [of g X] show ?thesis
    by (intro exI [of _ g]) simp
qed

text \<open>
  C11 (safety). A draw is announced only on a full board without a line: in a
  reachable state whose game state is \<open>End None_cell\<close> every cell is marked and
  neither player has a complete line.
\<close>

theorem draw_is_full:
  assumes "reachable g" and "gameState g = End None_cell"
  shows "full (cells (board g)) \<and> \<not> wins (cells (board g)) X \<and>
    \<not> wins (cells (board g)) O_cell"
  using reachable_game_inv [OF assms(1)] assms(2) by (simp add: game_inv_def legal_def)

theorem draw_is_full_witness:
  "\<exists>g. reachable g \<and> gameState g = End None_cell \<and>
     cells (board g) = [X, O_cell, X, X, O_cell, O_cell, O_cell, X, X] \<and>
     full (cells (board g)) \<and> \<not> wins (cells (board g)) X \<and>
     \<not> wins (cells (board g)) O_cell"
proof -
  obtain g where g: "reachable g"
    "abs_game g = play_all start (requests [ReadOk ''0 0\<newline>'', ReadOk ''1 0\<newline>'',
       ReadOk ''2 0\<newline>'', ReadOk ''1 1\<newline>'', ReadOk ''0 1\<newline>'', ReadOk ''2 1\<newline>'',
       ReadOk ''1 2\<newline>'', ReadOk ''0 2\<newline>'', ReadOk ''2 2\<newline>''])"
    using reachable_after by blast
  from g(2) have "gameState g = End None_cell \<and>
      cells (board g) = [X, O_cell, X, X, O_cell, O_cell, O_cell, X, X]"
    by (simp add: exec_eval)
  with g(1) draw_is_full [of g] show ?thesis
    by (intro exI [of _ g]) simp
qed

text \<open>
  C24 (invariant). The loop goes on only while the game is open: in a reachable
  state whose game state is \<open>InProgress\<close> nobody has a complete line and at least
  one cell is free, so an accepted move is still possible.
\<close>

theorem in_progress_is_open:
  assumes "reachable g" and "gameState g = InProgress"
  shows "\<not> wins (cells (board g)) X \<and> \<not> wins (cells (board g)) O_cell \<and>
    (\<exists>c r. accepts (abs_game g) c r)"
  using reachable_game_inv [OF assms(1)] assms(2)
    legal_in_progress_free_cell [of "abs_game g"]
  by (simp add: game_inv_def legal_def)

theorem in_progress_is_open_witness:
  "reachable initial_game \<and> gameState initial_game = InProgress \<and>
   \<not> wins (cells (board initial_game)) X \<and> \<not> wins (cells (board initial_game)) O_cell \<and>
   (\<exists>c r. accepts (abs_game initial_game) c r)"
  using in_progress_is_open [of initial_game] reachable_init
  by (simp add: initial_game_def)

text \<open>
  C22 (functional). A line that is refused costs nothing: when the read fails, the
  line does not parse, or the board rejects the move, the iteration changes
  neither the board nor the player to move nor the game state; it only prints
  the board, the prompt and the message.
\<close>

theorem refused_line_keeps_state:
  assumes "reachable g" and "gameState g = InProgress"
    and "\<not> (\<exists>c r'. request r = Some (c, r') \<and> accepts (abs_game g) c r')"
  shows "turn g r =
    Inr (g\<lparr>stdout := stdout g @ [render (cells (board g)), announce (playerState g)] @
            feedback (abs_game g) r\<rparr>)"
  using assms by (intro turn_rejected reachable_game_inv) auto

theorem refused_line_keeps_state_witness:
  "reachable initial_game \<and> gameState initial_game = InProgress \<and>
   \<not> (\<exists>c r'. request (ReadOk ''3 0\<newline>'') = Some (c, r') \<and>
      accepts (abs_game initial_game) c r') \<and>
   turn initial_game (ReadOk ''3 0\<newline>'') =
     Inr (initial_game\<lparr>stdout :=
       ['' | | \<newline>-+-+-\<newline> | | \<newline>-+-+-\<newline> | | \<newline>'', ''Player 1: '',
        ''Invalid index, max range of x and y is 2'']\<rparr>)"
  using refused_line_keeps_state [of initial_game "ReadOk ''3 0\<newline>''"] reachable_init
  by (simp add: exec_eval)

text \<open>
  C25 (bounds). No game has more than nine accepted moves: every reachable state
  arises from the start of the rules by as many accepted moves as there are marks
  on its board, at most nine, and fewer than nine while the game is in progress.
\<close>

theorem at_most_nine_moves:
  assumes "reachable g"
  shows "\<exists>n. reached n (abs_game g) \<and> marks (cells (board g)) = n \<and> n \<le> 9 \<and>
    (if gameState g = InProgress then n < 9 else True)"
proof -
  from assms obtain n where n: "reached n (abs_game g)"
    by (auto dest: reachable_reached)
  with reached_marks [OF n] legal_marks_le [of "abs_game g"]
    legal_in_progress_marks [of "abs_game g"] reached_legal [OF n]
  show ?thesis by auto
qed

theorem at_most_nine_moves_witness:
  "reachable initial_game \<and>
   (\<exists>n. reached n (abs_game initial_game) \<and> marks (cells (board initial_game)) = n \<and>
      n \<le> 9 \<and> (if gameState initial_game = InProgress then n < 9 else True))"
  using at_most_nine_moves [of initial_game] reachable_init by simp

text \<open>
  C5 (termination). The program ends exactly when the game does: some number of
  iterations ends \<open>main\<close> on the input \<open>stdin\<close> if and only if the moves asked for by
  the lines of \<open>stdin\<close>, played by the rules from the empty board, end the game;
  and then as many iterations as \<open>stdin\<close> has lines are enough.
\<close>

theorem main_terminates_iff:
  "((\<exists>fuel. main fuel stdin \<noteq> None) \<longleftrightarrow>
      status (play_all start (requests stdin)) \<noteq> InProgress) \<and>
   (main (length stdin) stdin \<noteq> None \<longleftrightarrow>
      status (play_all start (requests stdin)) \<noteq> InProgress)"
proof (cases "status (play_all start (requests stdin))")
  case InProgress
  then show ?thesis by (simp add: main_diverges)
next
  case (End w)
  with main_ends [of stdin w "length stdin"] show ?thesis by auto
qed


text \<open>
  C18 (liveness). At the end of the input the program does not stop: in a
  reachable state in which the game is in progress, no number of iterations ends
  the loop once the input is used up. Every further read gives the empty line,
  which is refused as "Incorrect number of arguments".
\<close>

theorem end_of_input_never_ends:
  "reachable g \<Longrightarrow> gameState g = InProgress \<Longrightarrow> main_loop fuel [] g = None"
  by (rule main_loop_diverges) (simp_all add: reachable_game_inv)

theorem end_of_input_never_ends_witness:
  "reachable initial_game \<and> gameState initial_game = InProgress \<and>
   main_loop 1000 [] initial_game = None \<and>
   turn initial_game (fst (next_read [])) =
     Inr (initial_game\<lparr>stdout :=
       ['' | | \<newline>-+-+-\<newline> | | \<newline>-+-+-\<newline> | | \<newline>'', ''Player 1: '',
        ''Incorrect number of arguments'']\<rparr>)"
  using end_of_input_never_ends [of initial_game 1000] reachable_init
  by (simp add: exec_eval del: main_loop.simps)

text \<open>
  C6 (refinement). The whole output of the program is determined by the game of
  the rules. When \<open>main\<close> returns it has not panicked, the moves asked for by the
  input have ended the game of the rules, and what it printed is the narration
  of that game (before every line read while the game is in progress the board
  and the prompt, after a refused line its message) followed by the
  announcement of the outcome.
\<close>

theorem main_transcript:
  assumes "main fuel stdin = Some res"
  shows "\<exists>w. status (play_all start (requests stdin)) = End w \<and>
    res = Inr (narrate start stdin @ [fmt_GameState (End w)])"
proof (cases "status (play_all start (requests stdin))")
  case InProgress
  with assms show ?thesis by (simp add: main_diverges)
next
  case (End w)
  with main_Some_eq [OF assms] show ?thesis by simp
qed

theorem main_transcript_witness:
  "main 2 [ReadOk ''x\<newline>'', ReadOk ''1 1\<newline>''] = None \<and>
   (\<exists>res. main 6 [ReadOk ''0 0\<newline>'', ReadOk ''0 0\<newline>'', ReadOk ''0 1\<newline>'', ReadOk ''1 0\<newline>'',
        ReadOk ''1 1\<newline>'', ReadOk ''2 0\<newline>''] = Some res \<and>
      res = Inr (narrate start [ReadOk ''0 0\<newline>'', ReadOk ''0 0\<newline>'', ReadOk ''0 1\<newline>'',
          ReadOk ''1 0\<newline>'', ReadOk ''1 1\<newline>'', ReadOk ''2 0\<newline>''] @ [''Player 1 wins!'']) \<and>
      length (projr res) = 14)"
proof -
  let ?in = "[ReadOk ''0 0\<newline>'', ReadOk ''0 0\<newline>'', ReadOk ''0 1\<newline>'', ReadOk ''1 0\<newline>'',
        ReadOk ''1 1\<newline>'', ReadOk ''2 0\<newline>'']"
  have ended: "status (play_all start (requests ?in)) = End X"
    by (simp add: exec_eval)
  then obtain res where res: "main 6 ?in = Some res"
    using main_transcript_ends [of ?in X 6] by auto
  from main_transcript [OF res] ended
  have "res = Inr (narrate start ?in @ [''Player 1 wins!''])" by simp
  moreover have "length (narrate start ?in) = 13" by (simp add: exec_eval)
  moreover have "main 2 [ReadOk ''x\<newline>'', ReadOk ''1 1\<newline>''] = None"
    by (simp add: exec_eval)
  ultimately show ?thesis using res by simp
qed

text \<open>
  C26 (liveness). A game in progress can always go on: in every reachable state
  whose game state is \<open>InProgress\<close> there are coordinates below three such that the
  line made of them, in decimal with a space between, is accepted and puts one
  more mark on the board.
\<close>

theorem some_line_makes_progress:
  assumes "reachable g" and "gameState g = InProgress"
  shows "\<exists>c r g'. c < 3 \<and> r < 3 \<and>
    turn g (ReadOk (show_dec c @ '' '' @ show_dec r @ ''\<newline>'')) = Inr g' \<and>
    marks (cells (board g')) = Suc (marks (cells (board g)))"
proof -
  from assms have inv: "game_inv g" by (simp add: reachable_game_inv)
  with assms(2) obtain c r where acc: "accepts (abs_game g) c r"
    using legal_in_progress_free_cell [of "abs_game g"] by (auto simp: game_inv_def)
  then have cr: "c < 3" "r < 3" by (simp_all add: accepts_def)
  then have req: "request (ReadOk (show_dec c @ '' '' @ show_dec r @ ''\<newline>'')) = Some (c, r)"
    by (intro request_show_dec) simp_all
  from inv acc have "marks (squares (play (abs_game g) c r)) = Suc (marks (cells (board g)))"
    by (simp add: marks_accepted game_inv_def)
  with inv assms(2) req cr show ?thesis
    by (intro exI [of _ c] exI [of _ r]) (simp add: turn_play del: append.simps)
qed

theorem some_line_makes_progress_witness:
  "reachable initial_game \<and> gameState initial_game = InProgress \<and>
   (\<exists>c r g'. c < 3 \<and> r < 3 \<and>
      turn initial_game (ReadOk (show_dec c @ '' '' @ show_dec r @ ''\<newline>'')) = Inr g' \<and>
      marks (cells (board g')) = Suc (marks (cells (board initial_game))))"
  using some_line_makes_progress [of initial_game] reachable_init
  by (simp add: initial_game_def)

end
