(* ===== verification/TTT_Console.thy ===== *)
theory TTT_Console
  imports TTT_Game
begin

text \<open>
  The console of the process: what \<^verbatim>\<open>std::io::stdin()\<close> and \<^verbatim>\<open>read_line\<close> (lines 126
  and 136 of \<^verbatim>\<open>src/src/main.rs\<close>) make of the bytes of the standard input, and the
  bytes that the calls of \<^verbatim>\<open>println!\<close> put on the standard output. The code of
  these calls is the standard library's; it is modelled from its documented
  behaviour.

  \<^item> \<open>valid_utf8\<close> is the test \<^verbatim>\<open>str::from_utf8\<close> makes: the text is cut into the
    well-formed byte sequences of the Unicode standard (no overlong forms, no
    surrogates, nothing above U+10FFFF), \<open>utf8_char_width\<close> giving the length of
    the first one from its first byte and checking the bytes that follow.
  \<^item> \<open>read_until d bs\<close> takes the bytes up to and including the first \<open>d\<close>, or all
    of them when there is none, and leaves the rest.
  \<^item> \<open>read_line bs\<close> reads up to the line break; the bytes are consumed whether
    or not they are valid UTF-8, and when they are not, the result is \<open>ReadErr\<close>
    and the buffer of the caller stays empty. At the end of the input the result
    is the empty line.
  \<^item> \<open>lines_of bs\<close> is the list of the results of reading \<open>bs\<close> to its end, the
    form in which \<open>TTT_Game\<close> takes the input.
  \<^item> \<open>stdout_bytes\<close> joins the texts printed, each followed by the line break
    \<^verbatim>\<open>println!\<close> adds, and \<open>process fuel bs\<close> is the whole program from the bytes
    read to the bytes written.

  Errors of the operating system while reading or writing are not modelled.
\<close>

definition byte_in :: "char \<Rightarrow> nat \<Rightarrow> nat \<Rightarrow> bool" where
  "byte_in c lo hi \<longleftrightarrow> lo \<le> (of_char c :: nat) \<and> (of_char c :: nat) \<le> hi"

definition continuation :: "char \<Rightarrow> bool" where
  "continuation c = byte_in c 0x80 0xBF"

definition second_of_three :: "char \<Rightarrow> char \<Rightarrow> bool" where
  "second_of_three a b =
     (if byte_in a 0xE0 0xE0 then byte_in b 0xA0 0xBF
      else if byte_in a 0xED 0xED then byte_in b 0x80 0x9F
      else byte_in b 0x80 0xBF)"

definition second_of_four :: "char \<Rightarrow> char \<Rightarrow> bool" where
  "second_of_four a b =
     (if byte_in a 0xF0 0xF0 then byte_in b 0x90 0xBF
      else if byte_in a 0xF4 0xF4 then byte_in b 0x80 0x8F
      else byte_in b 0x80 0xBF)"

definition utf8_char_width :: "string \<Rightarrow> nat option" where
  "utf8_char_width s =
     (case s of
        [] \<Rightarrow> None
      | a # rest \<Rightarrow>
          if byte_in a 0x00 0x7F then Some 1
          else if byte_in a 0xC2 0xDF then
            (case rest of
               b # _ \<Rightarrow> if continuation b then Some 2 else None
             | _ \<Rightarrow> None)
          else if byte_in a 0xE0 0xEF then
            (case rest of
               b # c # _ \<Rightarrow> if second_of_three a b \<and> continuation c then Some 3 else None
             | _ \<Rightarrow> None)
          else if byte_in a 0xF0 0xF4 then
            (case rest of
               b # c # d # _ \<Rightarrow>
                 if second_of_four a b \<and> continuation c \<and> continuation d then Some 4
                 else None
             | _ \<Rightarrow> None)
          else None)"

function valid_utf8 :: "string \<Rightarrow> bool" where
  "valid_utf8 s =
     (if s = [] then True
      else (case utf8_char_width s of
              None \<Rightarrow> False
            | Some n \<Rightarrow> valid_utf8 (drop n s)))"
  by pat_completeness auto
termination
proof (relation "measure length")
  show "wf (measure length)" by simp
next
  fix s :: string and n
  assume "s \<noteq> []" and "utf8_char_width s = Some n"
  then have "0 < n"
    by (auto simp: utf8_char_width_def split: list.splits if_splits)
  with \<open>s \<noteq> []\<close> show "(drop n s, s) \<in> measure length" by simp
qed

declare valid_utf8.simps [simp del]

fun read_until :: "char \<Rightarrow> string \<Rightarrow> string \<times> string" where
  "read_until d [] = ([], [])"
| "read_until d (c # bs) =
     (if c = d then ([c], bs)
      else (case read_until d bs of (line, rest) \<Rightarrow> (c # line, rest)))"

definition read_line :: "string \<Rightarrow> read_result \<times> string" where
  "read_line bs =
     (case read_until CHR ''\<newline>'' bs of
        (line, rest) \<Rightarrow> (if valid_utf8 line then ReadOk line else ReadErr, rest))"

function lines_of :: "string \<Rightarrow> read_result list" where
  "lines_of bs = (if bs = [] then [] else fst (read_line bs) # lines_of (snd (read_line bs)))"
  by pat_completeness auto

termination
proof (relation "measure length")
  show "wf (measure length)" by simp
next
  fix bs :: string
  assume "bs \<noteq> []"
  have "length (snd (read_until d cs)) \<le> length cs" for d cs
    by (induction cs) (auto split: prod.splits)
  from this [of "CHR ''\<newline>''" "tl bs"] \<open>bs \<noteq> []\<close>
  have "length (snd (read_until CHR ''\<newline>'' bs)) < length bs"
    by (cases bs) (auto split: prod.splits)
  then show "(snd (read_line bs), bs) \<in> measure length"
    by (auto simp: read_line_def split: prod.splits)
qed

declare lines_of.simps [simp del]

fun bytes_read :: "read_result list \<Rightarrow> string" where
  "bytes_read [] = []"
| "bytes_read (ReadOk s # rs) = s @ bytes_read rs"
| "bytes_read (ReadErr # rs) = bytes_read rs"

definition stdout_bytes :: "string list \<Rightarrow> string" where
  "stdout_bytes out = concat (map (\<lambda>s. s @ ''\<newline>'') out)"

definition process :: "nat \<Rightarrow> string \<Rightarrow> string exec option" where
  "process fuel bs =
     map_option (\<lambda>r. pbind r (\<lambda>out. Inr (stdout_bytes out))) (main fuel (lines_of bs))"

lemmas console_defs =
  byte_in_def continuation_def second_of_three_def second_of_four_def utf8_char_width_def
  read_line_def stdout_bytes_def process_def

lemmas [exec_eval] = console_defs valid_utf8.simps lines_of.simps

subsection \<open>Valid UTF-8\<close>

lemma valid_utf8_Nil [simp]: "valid_utf8 []"
  by (simp add: valid_utf8.simps)

lemma valid_utf8_step:
  "s \<noteq> [] \<Longrightarrow>
   valid_utf8 s = (case utf8_char_width s of None \<Rightarrow> False | Some n \<Rightarrow> valid_utf8 (drop n s))"
  by (subst valid_utf8.simps) simp

lemma utf8_char_width_bounds:
  "utf8_char_width s = Some n \<Longrightarrow> 0 < n \<and> n \<le> length s \<and> n \<le> 4"
  by (auto simp: utf8_char_width_def split: list.splits if_splits)

lemma utf8_char_width_ascii:
  "byte_in a 0 0x7F \<Longrightarrow> utf8_char_width (a # s) = Some 1"
  by (simp add: utf8_char_width_def)

lemma utf8_char_width_one:
  "utf8_char_width s = Some n \<Longrightarrow> byte_in (hd s) 0 0x7F \<longleftrightarrow> n = 1"
  by (auto simp: utf8_char_width_def split: list.splits if_splits)

lemma utf8_char_width_not_ascii:
  assumes "utf8_char_width s = Some n" and "n \<noteq> 1" and "c \<in> set (take n s)"
  shows "\<not> byte_in c 0 0x7F"
  using assms
  by (auto simp: utf8_char_width_def continuation_def second_of_three_def second_of_four_def
      byte_in_def take_Suc_Cons numeral_eq_Suc [of "num.Bit0 _"] numeral_eq_Suc [of "num.Bit1 _"]
      split: list.splits if_splits)

lemma utf8_char_width_no_delimiter:
  assumes "utf8_char_width s = Some n" and "byte_in d 0 0x7F" and "hd s \<noteq> d"
  shows "d \<notin> set (take n s)"
proof (cases "n = 1")
  case True
  with assms(1,3) utf8_char_width_bounds [OF assms(1)] show ?thesis
    by (cases s) simp_all
next
  case False
  with assms(1,2) show ?thesis by (auto dest: utf8_char_width_not_ascii)
qed

lemma utf8_char_width_append:
  "utf8_char_width u = Some n \<Longrightarrow> utf8_char_width (u @ v) = Some n"
  by (auto simp: utf8_char_width_def split: list.splits if_splits)

lemma utf8_char_width_take:
  "utf8_char_width s = Some n \<Longrightarrow> utf8_char_width (take n s) = Some n"
  by (auto simp: utf8_char_width_def split: list.splits if_splits)

lemma valid_utf8_ascii_Cons [simp]:
  "byte_in a 0 0x7F \<Longrightarrow> valid_utf8 (a # s) = valid_utf8 s"
  by (simp add: valid_utf8_step utf8_char_width_ascii)

lemma valid_utf8_ascii: "list_all (\<lambda>c. byte_in c 0 0x7F) s \<Longrightarrow> valid_utf8 s"
  by (induction s) simp_all

lemma valid_utf8_append: "valid_utf8 u \<Longrightarrow> valid_utf8 (u @ v) = valid_utf8 v"
proof (induction u rule: valid_utf8.induct)
  case (1 u)
  show ?case
  proof (cases "u = []")
    case True
    then show ?thesis by simp
  next
    case False
    with "1.prems" obtain n where n: "utf8_char_width u = Some n" "valid_utf8 (drop n u)"
      by (auto simp: valid_utf8_step split: option.splits)
    with False "1.IH" have "valid_utf8 (drop n u @ v) = valid_utf8 v" by simp
    with False n utf8_char_width_bounds [OF n(1)] show ?thesis
      by (simp add: valid_utf8_step utf8_char_width_append)
  qed
qed

lemma valid_utf8_char:
  "utf8_char_width s = Some n \<Longrightarrow> valid_utf8 (take n s)"
  using utf8_char_width_bounds [of s n]
  by (cases "take n s = []") (auto simp: valid_utf8_step utf8_char_width_take)

lemma valid_utf8_white_space: "list_all valid_utf8 white_space"
  by (simp add: white_space_def valid_utf8.simps utf8_char_width_def byte_in_def
      continuation_def second_of_three_def)

subsection \<open>Reading up to a delimiter\<close>

lemma read_until_append: "fst (read_until d bs) @ snd (read_until d bs) = bs"
  by (induction bs) (auto split: prod.splits)

lemma read_until_found:
  "d \<notin> set u \<Longrightarrow> read_until d (u @ d # rest) = (u @ [d], rest)"
  by (induction u) auto

lemma read_until_not_found: "d \<notin> set bs \<Longrightarrow> read_until d bs = (bs, [])"
  by (induction bs) auto

lemma read_until_cases:
  obtains "d \<notin> set bs" "read_until d bs = (bs, [])"
  | u rest where "bs = u @ d # rest" "d \<notin> set u" "read_until d bs = (u @ [d], rest)"
proof (cases "d \<in> set bs")
  case False
  then show thesis by (intro that(1) read_until_not_found)
next
  case True
  then obtain u rest where "bs = u @ d # rest" "d \<notin> set u"
    by (auto dest: split_list_first)
  then show thesis by (intro that(2) [of u rest]) (simp_all add: read_until_found)
qed

lemma read_until_shorter:
  "bs \<noteq> [] \<Longrightarrow> length (snd (read_until d bs)) < length bs"
  by (cases rule: read_until_cases [of d bs]) auto

subsection \<open>Lines\<close>

lemma read_line_Nil [simp]: "read_line [] = (ReadOk [], [])"
  by (simp add: read_line_def)

lemma lines_of_Nil [simp]: "lines_of [] = []"
  by (simp add: lines_of.simps)

lemma lines_of_Cons:
  "bs \<noteq> [] \<Longrightarrow> lines_of bs = fst (read_line bs) # lines_of (snd (read_line bs))"
  by (subst lines_of.simps) simp

lemma next_read_lines_of:
  "next_read (lines_of bs) = (fst (read_line bs), lines_of (snd (read_line bs)))"
  by (cases "bs = []") (simp_all add: lines_of_Cons)

lemma read_line_found:
  "CHR ''\<newline>'' \<notin> set u \<Longrightarrow>
   read_line (u @ CHR ''\<newline>'' # rest) =
     (if valid_utf8 (u @ ''\<newline>'') then ReadOk (u @ ''\<newline>'') else ReadErr, rest)"
  by (simp add: read_line_def read_until_found)

lemma lines_of_line:
  "CHR ''\<newline>'' \<notin> set u \<Longrightarrow>
   lines_of (u @ CHR ''\<newline>'' # rest) =
     (if valid_utf8 (u @ ''\<newline>'') then ReadOk (u @ ''\<newline>'') else ReadErr) # lines_of rest"
  by (simp add: lines_of_Cons read_line_found)

lemma length_lines_of: "length (lines_of bs) \<le> length bs"
proof (induction bs rule: lines_of.induct)
  case (1 bs)
  show ?case
  proof (cases "bs = []")
    case True
    then show ?thesis by simp
  next
    case False
    with "1.IH" read_until_shorter [of bs "CHR ''\<newline>''"] show ?thesis
      by (simp add: lines_of_Cons read_line_def split: prod.splits)
  qed
qed

lemma read_until_skip:
  "d \<notin> set u \<Longrightarrow>
   read_until d (u @ w) = (u @ fst (read_until d w), snd (read_until d w))"
  by (induction u) (auto split: prod.splits)

lemma valid_utf8_read_until:
  assumes "byte_in d 0 0x7F" and "valid_utf8 bs"
  shows "valid_utf8 (fst (read_until d bs)) \<and> valid_utf8 (snd (read_until d bs))"
  using assms(2)
proof (induction bs rule: valid_utf8.induct)
  case (1 bs)
  show ?case
  proof (cases "bs = []")
    case True
    then show ?thesis by simp
  next
    case False
    with "1.prems" obtain n where n: "utf8_char_width bs = Some n" "valid_utf8 (drop n bs)"
      by (auto simp: valid_utf8_step split: option.splits)
    with False "1.IH" have IH: "valid_utf8 (fst (read_until d (drop n bs)))"
      "valid_utf8 (snd (read_until d (drop n bs)))"
      by simp_all
    show ?thesis
    proof (cases "hd bs = d")
      case True
      with assms(1) utf8_char_width_one [OF n(1)] have "n = 1" by simp
      with True False n(2) assms(1) show ?thesis
        by (cases bs) (simp_all add: drop_Suc)
    next
      case False
      with n(1) assms(1) have "d \<notin> set (take n bs)"
        by (rule utf8_char_width_no_delimiter)
      then have "read_until d (take n bs @ drop n bs) =
          (take n bs @ fst (read_until d (drop n bs)), snd (read_until d (drop n bs)))"
        by (rule read_until_skip)
      with IH valid_utf8_char [OF n(1)] show ?thesis
        by (simp add: valid_utf8_append)
    qed
  qed
qed

lemma process_eq:
  "process fuel bs = map_option (map_sum id stdout_bytes) (main fuel (lines_of bs))"
  unfolding process_def
  by (rule option.map_cong) (auto simp: pbind_def split: sum.splits)

lemma process_diverges:
  "status (play_all start (requests (lines_of bs))) = InProgress \<Longrightarrow> process fuel bs = None"
  by (simp add: process_eq main_diverges)

lemma process_ends:
  assumes "status (play_all start (requests (lines_of bs))) = End w" and "length bs \<le> fuel"
  shows "process fuel bs =
    Some (Inr (stdout_bytes (narrate start (lines_of bs) @ [fmt_GameState (End w)])))"
proof -
  from assms(2) length_lines_of [of bs] have "length (lines_of bs) \<le> fuel" by simp
  with assms(1) show ?thesis
    by (simp add: process_eq main_transcript_ends)
qed

section \<open>Properties of the console\<close>

text \<open>
  C15 (roundtrip). Reading loses nothing of a valid input: when the bytes of the
  standard input are valid UTF-8, no read fails, and the lines read, joined in
  order, are the input, the last line included when it has no line break.
\<close>

theorem lines_of_roundtrip:
  "valid_utf8 bs \<Longrightarrow> bytes_read (lines_of bs) = bs \<and> ReadErr \<notin> set (lines_of bs)"
proof (induction bs rule: lines_of.induct)
  case (1 bs)
  show ?case
  proof (cases "bs = []")
    case True
    then show ?thesis by simp
  next
    case False
    obtain line rest where lr: "read_until CHR ''\<newline>'' bs = (line, rest)"
      by (cases "read_until CHR ''\<newline>'' bs")
    with valid_utf8_read_until [of "CHR ''\<newline>''" bs] "1.prems"
    have v: "valid_utf8 line" "valid_utf8 rest" by (simp_all add: byte_in_def)
    with lr have rl: "read_line bs = (ReadOk line, rest)" by (simp add: read_line_def)
    from lr read_until_append [of "CHR ''\<newline>''" bs] have "line @ rest = bs" by simp
    with False rl v(2) "1.IH" show ?thesis
      by (simp add: lines_of_Cons)
  qed
qed

theorem lines_of_roundtrip_witness:
  "valid_utf8 ''1 1\<newline>2 0'' \<and>
   lines_of ''1 1\<newline>2 0'' = [ReadOk ''1 1\<newline>'', ReadOk ''2 0''] \<and>
   bytes_read (lines_of ''1 1\<newline>2 0'') = ''1 1\<newline>2 0''"
  using lines_of_roundtrip [of "''1 1\<newline>2 0''"]
  by (simp add: exec_eval)

end
