(* ===== verification/TTT_Utf8.thy ===== *)
theory TTT_Utf8
  imports TTT_Console
begin

text \<open>
  The texts of the program are values of the types \<^verbatim>\<open>String\<close> and \<^verbatim>\<open>&str\<close>, which hold
  valid UTF-8 only. This theory relates the byte-level definitions of \<open>TTT_Input\<close>
  and \<open>TTT_Console\<close> to the characters the bytes stand for.

  \<^item> \<open>scalar_value n\<close>: \<open>n\<close> is a Unicode scalar value, a code point that is not a
    surrogate. \<open>encode_utf8 n\<close> is its encoding in one to four bytes and
    \<open>decode_utf8\<close> reads such an encoding back. They are reference definitions; the
    program contains neither.
  \<^item> The validity test of \<^verbatim>\<open>read_line\<close>, \<open>valid_utf8\<close>, accepts exactly the
    concatenations of encodings of scalar values; \<open>white_space\<close> lists the encodings
    of the 25 code points with the property White_Space.
  \<^item> A valid text is cut at the boundaries of its characters only: a valid text
    followed by a valid text is valid, and so are both parts when the whole and
    one part are. Hence \<^verbatim>\<open>split(' ')\<close> and \<^verbatim>\<open>trim()\<close>, which the model defines on
    bytes, return valid texts on every line that \<^verbatim>\<open>read_line\<close> returns.
\<close>

definition scalar_value :: "nat \<Rightarrow> bool" where
  "scalar_value n \<longleftrightarrow> n < 0xD800 \<or> (0xE000 \<le> n \<and> n < 0x110000)"

definition encode_utf8 :: "nat \<Rightarrow> string" where
  "encode_utf8 n =
     (if n < 0x80 then [char_of n]
      else if n < 0x800 then [char_of (0xC0 + n div 64), char_of (0x80 + n mod 64)]
      else if n < 0x10000 then
        [char_of (0xE0 + n div 4096), char_of (0x80 + n div 64 mod 64), char_of (0x80 + n mod 64)]
      else
        [char_of (0xF0 + n div 262144), char_of (0x80 + n div 4096 mod 64),
         char_of (0x80 + n div 64 mod 64), char_of (0x80 + n mod 64)])"

definition decode_utf8 :: "string \<Rightarrow> nat" where
  "decode_utf8 s =
     (case map of_char s of
        [a] \<Rightarrow> a
      | [a, b] \<Rightarrow> 64 * (a - 0xC0) + (b - 0x80)
      | [a, b, c] \<Rightarrow> 4096 * (a - 0xE0) + 64 * (b - 0x80) + (c - 0x80)
      | [a, b, c, d] \<Rightarrow>
          262144 * (a - 0xF0) + 4096 * (b - 0x80) + 64 * (c - 0x80) + (d - 0x80)
      | _ \<Rightarrow> 0)"

lemmas utf8_defs = scalar_value_def encode_utf8_def decode_utf8_def

lemmas [exec_eval] = utf8_defs

subsection \<open>Digits in base 64\<close>

lemma digits2: "(n::nat) = 64 * (n div 64) + n mod 64"
  by simp

lemma digits3: "(n::nat) = 4096 * (n div 4096) + 64 * (n div 64 mod 64) + n mod 64"
proof -
  have "n div 4096 = n div 64 div 64" by (simp add: div_mult2_eq)
  moreover have "n div 64 = 64 * (n div 64 div 64) + n div 64 mod 64" by simp
  moreover have "n = 64 * (n div 64) + n mod 64" by simp
  ultimately show ?thesis by linarith
qed

lemma digits4:
  "(n::nat) = 262144 * (n div 262144) + 4096 * (n div 4096 mod 64) + 64 * (n div 64 mod 64) + n mod 64"
proof -
  have "n div 262144 = n div 4096 div 64" by (simp add: div_mult2_eq)
  moreover have "n div 4096 = 64 * (n div 4096 div 64) + n div 4096 mod 64" by simp
  moreover note digits3 [of n]
  ultimately show ?thesis by linarith
qed

lemma digits2_unique:
  fixes n :: nat
  assumes "c < 64" and "n = 64 * a + c"
  shows "n div 64 = a" and "n mod 64 = c"
  using assms by simp_all

lemma digits3_unique:
  fixes n :: nat
  assumes "b < 64" and "c < 64" and "n = 4096 * a + 64 * b + c"
  shows "n div 4096 = a" and "n div 64 mod 64 = b" and "n mod 64 = c"
proof -
  from assms(3) have n: "n = 64 * (64 * a + b) + c" by simp
  from assms(2) n show "n mod 64 = c" by (rule digits2_unique)
  from assms(2) n have q: "n div 64 = 64 * a + b" by (rule digits2_unique)
  with assms(1) show "n div 64 mod 64 = b" by simp
  have "n div 4096 = n div 64 div 64" by (simp add: div_mult2_eq)
  with q assms(1) show "n div 4096 = a" by simp
qed

lemma digits4_unique:
  fixes n :: nat
  assumes "b < 64" and "c < 64" and "d < 64" and "n = 262144 * a + 4096 * b + 64 * c + d"
  shows "n div 262144 = a" and "n div 4096 mod 64 = b" and "n div 64 mod 64 = c"
    and "n mod 64 = d"
proof -
  from assms(4) have n: "n = 4096 * (64 * a + b) + 64 * c + d" by simp
  from assms(2,3) n show "n div 64 mod 64 = c" and "n mod 64 = d"
    by (rule digits3_unique)+
  from assms(2,3) n have q: "n div 4096 = 64 * a + b" by (rule digits3_unique)
  with assms(1) show "n div 4096 mod 64 = b" by simp
  have "n div 262144 = n div 4096 div 64" by (simp add: div_mult2_eq)
  with q assms(1) show "n div 262144 = a" by simp
qed

subsection \<open>Bytes as numbers\<close>

lemma byte_in_char_of:
  "n < 256 \<Longrightarrow> byte_in (char_of n) lo hi \<longleftrightarrow> lo \<le> n \<and> n \<le> hi"
  by (simp add: byte_in_def)

lemma byte_in_offset:
  assumes "byte_in a lo hi" and "hi < 256"
  obtains k where "a = char_of (lo + k)" and "lo + k \<le> hi"
proof
  from assms(1) show "lo + (of_char a - lo) \<le> hi" by (simp add: byte_in_def)
  from assms(1) show "a = char_of (lo + (of_char a - lo))" by (simp add: byte_in_def)
qed

lemma continuation_char_of: "b < 64 \<Longrightarrow> continuation (char_of (0x80 + b :: nat))"
  by (simp add: continuation_def byte_in_char_of)

lemma continuation_offset:
  assumes "continuation a"
  obtains b :: nat where "a = char_of (0x80 + b)" and "b < 64"
  using assms unfolding continuation_def
  by (rule byte_in_offset) (simp, simp)

lemma second_of_three_char_of:
  fixes a b :: nat
  shows "a < 16 \<Longrightarrow> b < 64 \<Longrightarrow>
   second_of_three (char_of (0xE0 + a)) (char_of (0x80 + b)) \<longleftrightarrow>
     (a = 0 \<longrightarrow> 32 \<le> b) \<and> (a = 13 \<longrightarrow> b < 32)"
  by (auto simp: second_of_three_def byte_in_char_of)

lemma second_of_four_char_of:
  fixes a b :: nat
  shows "a < 5 \<Longrightarrow> b < 64 \<Longrightarrow>
   second_of_four (char_of (0xF0 + a)) (char_of (0x80 + b)) \<longleftrightarrow>
     (a = 0 \<longrightarrow> 16 \<le> b) \<and> (a = 4 \<longrightarrow> b < 16)"
  by (auto simp: second_of_four_def byte_in_char_of)

subsection \<open>The four forms of an encoding\<close>

lemma encode_utf8_one: "n < 128 \<Longrightarrow> encode_utf8 n = [char_of n]"
  by (simp add: encode_utf8_def)

lemma encode_utf8_two:
  assumes "c < 64" and "2 \<le> a" and "a < 32"
  shows "encode_utf8 (64 * a + c) = [char_of (0xC0 + a), char_of (0x80 + c)]"
  using assms digits2_unique [OF assms(1) refl, of a]
  by (simp add: encode_utf8_def)

lemma encode_utf8_three:
  assumes "b < 64" and "c < 64" and "a = 0 \<longrightarrow> 32 \<le> b" and "a < 16"
  shows "encode_utf8 (4096 * a + 64 * b + c) =
    [char_of (0xE0 + a), char_of (0x80 + b), char_of (0x80 + c)]"
proof -
  from assms(3) have "2048 \<le> 4096 * a + 64 * b + c" by (cases "a = 0") simp_all
  with assms digits3_unique [OF assms(1,2) refl, of a] show ?thesis
    by (simp add: encode_utf8_def)
qed

lemma encode_utf8_four:
  assumes "b < 64" and "c < 64" and "d < 64"
    and "a = 0 \<longrightarrow> 16 \<le> b"
  shows "encode_utf8 (262144 * a + 4096 * b + 64 * c + d) =
    [char_of (0xF0 + a), char_of (0x80 + b), char_of (0x80 + c), char_of (0x80 + d)]"
proof -
  from assms(4) have "65536 \<le> 262144 * a + 4096 * b + 64 * c + d"
    by (cases "a = 0") simp_all
  with assms digits4_unique [OF assms(1,2,3) refl, of a] show ?thesis
    by (simp add: encode_utf8_def)
qed

lemma decode_utf8_forms:
  fixes n a b c d :: nat
  shows "n < 128 \<Longrightarrow> decode_utf8 [char_of n] = n"
  and "a < 32 \<Longrightarrow> c < 64 \<Longrightarrow> decode_utf8 [char_of (0xC0 + a), char_of (0x80 + c)] = 64 * a + c"
  and "a < 16 \<Longrightarrow> b < 64 \<Longrightarrow> c < 64 \<Longrightarrow>
   decode_utf8 [char_of (0xE0 + a), char_of (0x80 + b), char_of (0x80 + c)] =
     4096 * a + 64 * b + c"
  and "a < 5 \<Longrightarrow> b < 64 \<Longrightarrow> c < 64 \<Longrightarrow> d < 64 \<Longrightarrow>
   decode_utf8 [char_of (0xF0 + a), char_of (0x80 + b), char_of (0x80 + c),
     char_of (0x80 + d)] = 262144 * a + 4096 * b + 64 * c + d"
  by (simp_all add: decode_utf8_def)


subsection \<open>Encoding a scalar value\<close>

lemma utf8_char_width_two:
  "byte_in a 0xC2 0xDF \<Longrightarrow> continuation b \<Longrightarrow> utf8_char_width (a # b # s) = Some 2"
  by (simp add: utf8_char_width_def byte_in_def)

lemma utf8_char_width_three:
  "byte_in a 0xE0 0xEF \<Longrightarrow> second_of_three a b \<Longrightarrow> continuation c \<Longrightarrow>
   utf8_char_width (a # b # c # s) = Some 3"
  by (simp add: utf8_char_width_def byte_in_def)

lemma utf8_char_width_four:
  "byte_in a 0xF0 0xF4 \<Longrightarrow> second_of_four a b \<Longrightarrow> continuation c \<Longrightarrow> continuation d \<Longrightarrow>
   utf8_char_width (a # b # c # d # s) = Some 4"
  by (simp add: utf8_char_width_def byte_in_def)

lemma scalar_value_cases:
  assumes "scalar_value n"
  obtains (one) "n < 0x80"
  | (two) a c where "n = 64 * a + c" "c < 64" "2 \<le> a" "a < 32"
  | (three) a b c where "n = 4096 * a + 64 * b + c" "b < 64" "c < 64" "a < 16"
      "a = 0 \<longrightarrow> 32 \<le> b" "a = 13 \<longrightarrow> b < 32"
  | (four) a b c d where "n = 262144 * a + 4096 * b + 64 * c + d" "b < 64" "c < 64" "d < 64"
      "a < 5" "a = 0 \<longrightarrow> 16 \<le> b" "a = 4 \<longrightarrow> b < 16"
proof -
  consider "n < 0x80" | "0x80 \<le> n" "n < 0x800" | "0x800 \<le> n" "n < 0x10000"
    | "0x10000 \<le> n" "n < 0x110000"
    using assms unfolding scalar_value_def by atomize_elim linarith
  then show thesis
  proof cases
    case 1
    then show thesis by (rule one)
  next
    case 2
    with digits2 [of n] show thesis
      by (intro two [of "n div 64" "n mod 64"]) simp_all
  next
    case 3
    have "n mod 64 < 64" "n div 64 mod 64 < 64" by simp_all
    with 3 assms digits3 [of n] show thesis
      unfolding scalar_value_def
      by (intro three [of "n div 4096" "n div 64 mod 64" "n mod 64"]) linarith+
  next
    case 4
    have "n mod 64 < 64" "n div 64 mod 64 < 64" "n div 4096 mod 64 < 64" by simp_all
    with 4 digits4 [of n] show thesis
      by (intro four [of "n div 262144" "n div 4096 mod 64" "n div 64 mod 64" "n mod 64"])
        linarith+
  qed
qed

lemma encode_utf8_not_Nil [simp]: "encode_utf8 n \<noteq> []"
  by (simp add: encode_utf8_def)

lemma utf8_char_width_encode:
  assumes "scalar_value n"
  shows "utf8_char_width (encode_utf8 n @ s) = Some (length (encode_utf8 n))"
  using assms
proof (cases rule: scalar_value_cases)
  case one
  then show ?thesis
    by (simp add: encode_utf8_one utf8_char_width_ascii byte_in_char_of)
next
  case (two a c)
  then show ?thesis
    by (simp add: encode_utf8_two utf8_char_width_two byte_in_char_of continuation_char_of)
next
  case (three a b c)
  then show ?thesis
    by (simp add: encode_utf8_three utf8_char_width_three byte_in_char_of
        continuation_char_of second_of_three_char_of)
next
  case (four a b c d)
  then show ?thesis
    by (simp add: encode_utf8_four utf8_char_width_four byte_in_char_of
        continuation_char_of second_of_four_char_of)
qed

lemma decode_encode_utf8:
  assumes "scalar_value n"
  shows "decode_utf8 (encode_utf8 n) = n"
  using assms
proof (cases rule: scalar_value_cases)
  case one
  then show ?thesis by (simp add: encode_utf8_one decode_utf8_forms)
next
  case (two a c)
  then show ?thesis by (simp add: encode_utf8_two decode_utf8_forms)
next
  case (three a b c)
  then show ?thesis by (simp add: encode_utf8_three decode_utf8_forms)
next
  case (four a b c d)
  then show ?thesis by (simp add: encode_utf8_four decode_utf8_forms)
qed

lemma utf8_char_width_shape:
  assumes "utf8_char_width s = Some w"
  obtains (one) a where "take w s = [a]" "byte_in a 0 0x7F" "w = 1"
  | (two) a b where "take w s = [a, b]" "byte_in a 0xC2 0xDF" "continuation b" "w = 2"
  | (three) a b c where "take w s = [a, b, c]" "byte_in a 0xE0 0xEF" "second_of_three a b"
      "continuation c" "w = 3"
  | (four) a b c d where "take w s = [a, b, c, d]" "byte_in a 0xF0 0xF4" "second_of_four a b"
      "continuation c" "continuation d" "w = 4"
  using assms
  by (auto simp: utf8_char_width_def split: list.splits if_splits)

lemma utf8_char_width_cases:
  assumes "utf8_char_width s = Some w"
  obtains (one) n :: nat where "take w s = [char_of n]" "n < 128"
  | (two) a c :: nat where "take w s = [char_of (0xC0 + a), char_of (0x80 + c)]"
      "2 \<le> a" "a < 32" "c < 64"
  | (three) a b c :: nat where
      "take w s = [char_of (0xE0 + a), char_of (0x80 + b), char_of (0x80 + c)]"
      "a < 16" "b < 64" "c < 64" "a = 0 \<longrightarrow> 32 \<le> b" "a = 13 \<longrightarrow> b < 32"
  | (four) a b c d :: nat where
      "take w s = [char_of (0xF0 + a), char_of (0x80 + b), char_of (0x80 + c),
         char_of (0x80 + d)]"
      "a < 5" "b < 64" "c < 64" "d < 64" "a = 0 \<longrightarrow> 16 \<le> b" "a = 4 \<longrightarrow> b < 16"
  using assms
proof (cases rule: utf8_char_width_shape)
  case (one a)
  then show thesis
    by (intro that(1) [of "of_char a"]) (simp_all add: byte_in_def)
next
  case (two a b)
  from two(2) obtain a' :: nat where a: "a = char_of (0xC2 + a')" "0xC2 + a' \<le> 0xDF"
    by (rule byte_in_offset) simp
  from two(3) obtain b' :: nat where b: "b = char_of (0x80 + b')" "b' < 64"
    by (rule continuation_offset)
  from two(1) a b show thesis
    by (intro that(2) [of "2 + a'" b']) (simp_all add: add.assoc [symmetric])
next
  case (three a b c)
  from three(2) obtain a' :: nat where a: "a = char_of (0xE0 + a')" "0xE0 + a' \<le> 0xEF"
    by (rule byte_in_offset) simp
  from three(3) have "continuation b"
    by (auto simp: second_of_three_def continuation_def byte_in_def split: if_splits)
  then obtain b' :: nat where b: "b = char_of (0x80 + b')" "b' < 64"
    by (rule continuation_offset)
  from three(4) obtain c' :: nat where c: "c = char_of (0x80 + c')" "c' < 64"
    by (rule continuation_offset)
  from a(2) have "a' < 16" by simp
  with three(1,3) a b c show thesis
    by (intro that(3) [of a' b' c']) (simp_all add: second_of_three_char_of)
next
  case (four a b c d)
  from four(2) obtain a' :: nat where a: "a = char_of (0xF0 + a')" "0xF0 + a' \<le> 0xF4"
    by (rule byte_in_offset) simp
  from four(3) have "continuation b"
    by (auto simp: second_of_four_def continuation_def byte_in_def split: if_splits)
  then obtain b' :: nat where b: "b = char_of (0x80 + b')" "b' < 64"
    by (rule continuation_offset)
  from four(4) obtain c' :: nat where c: "c = char_of (0x80 + c')" "c' < 64"
    by (rule continuation_offset)
  from four(5) obtain d' :: nat where d: "d = char_of (0x80 + d')" "d' < 64"
    by (rule continuation_offset)
  from a(2) have "a' < 5" by simp
  with four(1,3) a b c d show thesis
    by (intro that(4) [of a' b' c' d']) (simp_all add: second_of_four_char_of)
qed


subsection \<open>The validity test and the encoder\<close>

lemma scalar_value_three:
  assumes "a < 16" "b < 64" "c < 64" "a = 13 \<longrightarrow> b < 32"
  shows "scalar_value (4096 * a + 64 * b + c)"
proof -
  consider "a < 13" | "a = 13" | "13 < a" by linarith
  then show ?thesis using assms by cases (simp_all add: scalar_value_def)
qed

lemma scalar_value_four:
  assumes "a < 5" "b < 64" "c < 64" "d < 64" "a = 0 \<longrightarrow> 16 \<le> b" "a = 4 \<longrightarrow> b < 16"
  shows "scalar_value (262144 * a + 4096 * b + 64 * c + d)"
proof -
  consider "a = 0" | "0 < a" "a < 4" | "a = 4" using assms(1) by linarith
  then show ?thesis using assms by cases (simp_all add: scalar_value_def)
qed

lemma encode_decode_utf8:
  assumes "utf8_char_width s = Some w"
  shows "scalar_value (decode_utf8 (take w s)) \<and>
    encode_utf8 (decode_utf8 (take w s)) = take w s"
  using assms
proof (cases rule: utf8_char_width_cases)
  case (one n)
  then show ?thesis
    by (simp add: decode_utf8_forms encode_utf8_one scalar_value_def)
next
  case (two a c)
  then show ?thesis
    by (simp add: decode_utf8_forms encode_utf8_two scalar_value_def)
next
  case (three a b c)
  then show ?thesis
    by (simp add: decode_utf8_forms encode_utf8_three scalar_value_three)
next
  case (four a b c d)
  then show ?thesis
    by (simp add: decode_utf8_forms encode_utf8_four scalar_value_four)
qed

lemma valid_utf8_encode:
  "list_all scalar_value ns \<Longrightarrow> valid_utf8 (concat (map encode_utf8 ns))"
  by (induction ns) (simp_all add: valid_utf8_step utf8_char_width_encode)

lemma valid_utf8_decode:
  "valid_utf8 s \<Longrightarrow> \<exists>ns. list_all scalar_value ns \<and> s = concat (map encode_utf8 ns)"
proof (induction s rule: valid_utf8.induct)
  case (1 s)
  show ?case
  proof (cases "s = []")
    case True
    then show ?thesis by (intro exI [of _ "[]"]) simp
  next
    case False
    with "1.prems" obtain w where w: "utf8_char_width s = Some w" "valid_utf8 (drop w s)"
      by (auto simp: valid_utf8_step split: option.splits)
    with False "1.IH" obtain ns where
      ns: "list_all scalar_value ns" "drop w s = concat (map encode_utf8 ns)"
      by blast
    let ?n = "decode_utf8 (take w s)"
    from w(1) have n: "scalar_value ?n" "encode_utf8 ?n = take w s"
      by (simp_all add: encode_decode_utf8)
    have "s = take w s @ drop w s" by simp
    also have "\<dots> = concat (map encode_utf8 (?n # ns))"
      by (simp only: n(2) ns(2) [symmetric] list.map concat.simps)
    finally have "s = concat (map encode_utf8 (?n # ns))" .
    with n(1) ns(1) show ?thesis by (intro exI [of _ "?n # ns"]) simp
  qed
qed

subsection \<open>The boundaries of characters\<close>

lemma utf8_char_width_lead:
  assumes "utf8_char_width s = Some w"
  shows "\<not> continuation (hd s)"
  using assms
  by (auto simp: utf8_char_width_def continuation_def byte_in_def split: list.splits if_splits)

lemma second_continuation:
  "second_of_three a b \<Longrightarrow> continuation b" "second_of_four a b \<Longrightarrow> continuation b"
  by (auto simp: second_of_three_def second_of_four_def continuation_def byte_in_def
      split: if_splits)

lemma utf8_char_width_continuation:
  assumes "utf8_char_width s = Some w" and "0 < i" and "i < w"
  shows "continuation (s ! i)"
proof -
  from assms(3) have "s ! i = take w s ! i" by simp
  moreover from assms(1) have "continuation (take w s ! i)"
  proof (cases rule: utf8_char_width_shape)
    case (one a)
    with assms(2,3) show ?thesis by simp
  next
    case (two a b)
    with assms(2,3) have "i = 1" by simp
    with two show ?thesis by simp
  next
    case (three a b c)
    with assms(2,3) have "i = 1 \<or> i = 2" by auto
    with three show ?thesis by (auto simp: second_continuation)
  next
    case (four a b c d)
    with assms(2,3) have "i = 1 \<or> i = 2 \<or> i = 3" by auto
    with four show ?thesis by (auto simp: second_continuation)
  qed
  ultimately show ?thesis by simp
qed

lemma utf8_char_width_prefix:
  assumes "utf8_char_width (u @ v) = Some w" and "w \<le> length u"
  shows "utf8_char_width u = Some w"
proof -
  from assms(1) have "utf8_char_width (take w (u @ v)) = Some w"
    by (rule utf8_char_width_take)
  with assms(2) have "utf8_char_width (take w u) = Some w" by simp
  then have "utf8_char_width (take w u @ drop w u) = Some w"
    by (rule utf8_char_width_append)
  then show ?thesis by simp
qed

lemma valid_utf8_suffix:
  assumes "valid_utf8 (u @ v)" and "valid_utf8 v"
  shows "valid_utf8 u"
  using assms(1)
proof (induction u rule: valid_utf8.induct)
  case (1 u)
  show ?case
  proof (cases "u = []")
    case True
    then show ?thesis by simp
  next
    case False
    with "1.prems" obtain w where
      w: "utf8_char_width (u @ v) = Some w" "valid_utf8 (drop w (u @ v))"
      by (auto simp: valid_utf8_step split: option.splits)
    have le: "w \<le> length u"
    proof (rule ccontr)
      assume "\<not> w \<le> length u"
      with False w(1) have "continuation ((u @ v) ! length u)"
        by (intro utf8_char_width_continuation [of _ w]) simp_all
      moreover from \<open>\<not> w \<le> length u\<close> utf8_char_width_bounds [OF w(1)] have "v \<noteq> []"
        by auto
      ultimately have "continuation (hd v)" by (simp add: nth_append hd_conv_nth)
      moreover from \<open>v \<noteq> []\<close> assms(2) obtain w' where "utf8_char_width v = Some w'"
        by (auto simp: valid_utf8_step split: option.splits)
      ultimately show False by (auto dest: utf8_char_width_lead)
    qed
    with w(1) have u: "utf8_char_width u = Some w" by (rule utf8_char_width_prefix)
    from le w(2) have "valid_utf8 (drop w u @ v)" by simp
    with False u have "valid_utf8 (drop w u)" by (rule "1.IH")
    with False u show ?thesis by (simp add: valid_utf8_step)
  qed
qed

subsection \<open>The white space of \<open>trim\<close>\<close>

lemma white_space_code_points:
  "map encode_utf8
     [0x09, 0x0A, 0x0B, 0x0C, 0x0D, 0x20, 0x85, 0xA0, 0x1680, 0x2000, 0x2001, 0x2002,
      0x2003, 0x2004, 0x2005, 0x2006, 0x2007, 0x2008, 0x2009, 0x200A, 0x2028, 0x2029,
      0x202F, 0x205F, 0x3000] = white_space"
  by (simp add: white_space_def encode_utf8_def char_of_eq_iff)

subsection \<open>Texts stay valid\<close>

lemma valid_utf8_concat: "list_all valid_utf8 ps \<Longrightarrow> valid_utf8 (concat ps)"
  by (induction ps) (simp_all add: valid_utf8_append)

lemma valid_utf8_white_space_concat:
  assumes "set ps \<subseteq> set white_space"
  shows "valid_utf8 (concat ps)"
proof (rule valid_utf8_concat)
  from assms valid_utf8_white_space show "list_all valid_utf8 ps"
    by (auto simp: list_all_iff)
qed

lemma valid_utf8_trim_start: "valid_utf8 s \<Longrightarrow> valid_utf8 (trim_start s)"
proof -
  assume s: "valid_utf8 s"
  from trim_start_removes [of s] obtain pre where
    pre: "set pre \<subseteq> set white_space" "s = concat pre @ trim_start s"
    by blast
  from pre(1) have "valid_utf8 (concat pre)" by (rule valid_utf8_white_space_concat)
  then have "valid_utf8 (concat pre @ trim_start s) = valid_utf8 (trim_start s)"
    by (rule valid_utf8_append)
  with s pre(2) show ?thesis by simp
qed

lemma valid_utf8_trim_end: "valid_utf8 s \<Longrightarrow> valid_utf8 (trim_end s)"
proof -
  assume s: "valid_utf8 s"
  from trim_end_removes [of s] obtain post where
    post: "set post \<subseteq> set white_space" "s = trim_end s @ concat post"
    by blast
  from s post(2) have "valid_utf8 (trim_end s @ concat post)" by simp
  moreover from post(1) have "valid_utf8 (concat post)"
    by (rule valid_utf8_white_space_concat)
  ultimately show ?thesis by (rule valid_utf8_suffix)
qed

lemma valid_utf8_trim: "valid_utf8 s \<Longrightarrow> valid_utf8 (trim s)"
  by (simp add: trim_def valid_utf8_trim_start valid_utf8_trim_end)

lemma split_char_skip:
  "d \<notin> set u \<Longrightarrow>
   split_char d (u @ s) = (u @ hd (split_char d s)) # tl (split_char d s)"
  by (induction u) (auto simp: split_char_Cons simp del: split_char.simps(2))

lemma valid_utf8_split_char:
  assumes "byte_in d 0 0x7F" and "valid_utf8 s"
  shows "list_all valid_utf8 (split_char d s)"
  using assms(2)
proof (induction s rule: valid_utf8.induct)
  case (1 s)
  show ?case
  proof (cases "s = []")
    case True
    then show ?thesis by simp
  next
    case False
    with "1.prems" obtain n where n: "utf8_char_width s = Some n" "valid_utf8 (drop n s)"
      by (auto simp: valid_utf8_step split: option.splits)
    with False "1.IH" have IH: "list_all valid_utf8 (split_char d (drop n s))"
      by simp
    show ?thesis
    proof (cases "hd s = d")
      case True
      with assms(1) utf8_char_width_one [OF n(1)] have "n = 1" by simp
      with True False IH show ?thesis
        by (cases s) (simp_all add: drop_Suc)
    next
      case False
      with n(1) assms(1) have "d \<notin> set (take n s)"
        by (rule utf8_char_width_no_delimiter)
      then have "split_char d (take n s @ drop n s) =
          (take n s @ hd (split_char d (drop n s))) # tl (split_char d (drop n s))"
        by (rule split_char_skip)
      with IH valid_utf8_char [OF n(1)] show ?thesis
        by (cases "split_char d (drop n s)") (simp_all add: valid_utf8_append)
    qed
  qed
qed

lemma valid_utf8_lines_of: "ReadOk line \<in> set (lines_of bs) \<Longrightarrow> valid_utf8 line"
proof (induction bs rule: lines_of.induct)
  case (1 bs)
  then show ?case
    by (cases "bs = []")
      (auto simp: lines_of_Cons read_line_def split: prod.splits if_splits)
qed

section \<open>Properties of the texts\<close>

text \<open>
  C16 (equivalence). The validity test of \<^verbatim>\<open>read_line\<close> against the definition of
  UTF-8: a sequence of bytes is accepted if and only if it is the concatenation of
  the encodings of Unicode scalar values.
\<close>

theorem valid_utf8_iff:
  "valid_utf8 s \<longleftrightarrow> (\<exists>ns. list_all scalar_value ns \<and> s = concat (map encode_utf8 ns))"
  by (auto simp: valid_utf8_encode dest: valid_utf8_decode)

text \<open>
  C21 (type). Every text the program handles is a well-formed \<^verbatim>\<open>str\<close>: each line that
  \<^verbatim>\<open>read_line\<close> returns is valid UTF-8, and so are the pieces \<^verbatim>\<open>split(' ')\<close> cuts it
  into and what \<^verbatim>\<open>trim()\<close> leaves of each piece, although the model cuts sequences
  of bytes. No character is ever cut in two.
\<close>

theorem str_values_valid:
  assumes "ReadOk line \<in> set (lines_of bs)"
  shows "valid_utf8 line \<and>
    list_all (\<lambda>a. valid_utf8 a \<and> valid_utf8 (trim a)) (split_char CHR '' '' line)"
proof -
  from assms have line: "valid_utf8 line" by (rule valid_utf8_lines_of)
  have "byte_in CHR '' '' 0 0x7F" by (simp add: byte_in_def)
  from this line have "list_all valid_utf8 (split_char CHR '' '' line)"
    by (rule valid_utf8_split_char)
  with line show ?thesis by (auto simp: list_all_iff valid_utf8_trim)
qed

theorem str_values_valid_witness:
  "ReadOk [CHR 0xC3, CHR 0xA9, CHR 0xE2, CHR 0x80, CHR 0x83, CHR '' '', CHR ''1'', CHR 0x0A]
     \<in> set (lines_of
         [CHR 0xC3, CHR 0xA9, CHR 0xE2, CHR 0x80, CHR 0x83, CHR '' '', CHR ''1'', CHR 0x0A]) \<and>
   valid_utf8
     [CHR 0xC3, CHR 0xA9, CHR 0xE2, CHR 0x80, CHR 0x83, CHR '' '', CHR ''1'', CHR 0x0A] \<and>
   list_all (\<lambda>a. valid_utf8 a \<and> valid_utf8 (trim a))
     (split_char CHR '' ''
        [CHR 0xC3, CHR 0xA9, CHR 0xE2, CHR 0x80, CHR 0x83, CHR '' '', CHR ''1'', CHR 0x0A])"
proof -
  have line: "ReadOk
      [CHR 0xC3, CHR 0xA9, CHR 0xE2, CHR 0x80, CHR 0x83, CHR '' '', CHR ''1'', CHR 0x0A]
    \<in> set (lines_of
        [CHR 0xC3, CHR 0xA9, CHR 0xE2, CHR 0x80, CHR 0x83, CHR '' '', CHR ''1'', CHR 0x0A])"
    by (simp add: exec_eval)
  from line str_values_valid [OF line] show ?thesis by (rule conjI)
qed

end
