(* ===== verification/TTT_Process.thy ===== *)
theory TTT_Process
  imports TTT_Console "HOL-Library.Sublist"
begin

text \<open>
  The program as a process: \<^verbatim>\<open>main\<close> of \<^verbatim>\<open>src/src/main.rs\<close> (lines 121-174) once more,
  with its calls of \<^verbatim>\<open>println!\<close> and \<^verbatim>\<open>read_line\<close> as effects on a terminal, in the
  order of the source. \<^verbatim>\<open>println!\<close> panics when the write fails (a closed pipe, a
  full disk), so every call of it (lines 129, 132, 133, 139, 145, 149, 153, 162
  and 173) is a point at which the program can end, with what it has printed so
  far on the standard output.

  \<^item> A \<open>terminal\<close> holds the \<open>history\<close> of the calls made so far (an \<open>event\<close> is a line
    printed or the result of a read), the results the further reads will give
    (\<open>pending\<close>), and the number of writes the output still \<open>accepts\<close>, \<open>None\<close> when it
    never fails. Only the first failure matters, since the program ends there. A
    write is a whole line.
  \<^item> \<open>'a io\<close> is a computation with such effects: from the terminal to a value or
    a panic, and the terminal it leaves, so that what happened before a panic is
    kept. \<open>io_bind\<close> is the sequence of two statements, \<open>io_lift\<close> an expression
    that may panic and has no effect, \<open>println_io\<close> is \<^verbatim>\<open>println!\<close> and \<open>read_line_io\<close>
    is \<^verbatim>\<open>stdin.read_line\<close>.
  \<^item> \<open>turn_io\<close>, \<open>main_loop_io\<close> and \<open>main_io\<close> are the loop body, the loop and \<^verbatim>\<open>main\<close>,
    statement by statement; the local variables \<^verbatim>\<open>board\<close>, \<^verbatim>\<open>playerState\<close> and
    \<^verbatim>\<open>gameState\<close> are a triple (\<open>locals\<close>).
  \<^item> \<open>run fuel bs limit\<close> is what the operating system sees: the bytes on the
    standard output and the \<open>exit_status\<close>, \<open>Success\<close> for the return from \<^verbatim>\<open>main\<close>
    and \<open>Panicked\<close> for a panic.

  The reference definitions say what is expected. \<open>script p rs\<close> is the dialogue
  the rules prescribe from the position \<open>p\<close> for the reads \<open>rs\<close>: board, prompt,
  read, message; \<open>dialogue\<close> is the script from the empty board with the
  announcement at its end. \<open>perform\<close> makes a list of events happen on a terminal,
  \<open>cut\<close> is the part of a list that happens before a write fails and \<open>fits\<close> says
  that none fails. \<open>asks_before_reading\<close> is the order of prompts and reads.

  The lemmas show that an iteration performs the events of one round of the
  script (\<open>turn_io_play\<close>) and the loop those of the script (\<open>main_loop_io_script\<close>),
  so that \<open>main_io\<close> is the dialogue performed as far as the terminal accepts it
  (\<open>main_io_perform\<close>). From this follow the agreement with \<open>main\<close> of \<open>TTT_Game\<close> when
  the output never fails, the cut of the output when it does, the termination
  of the program on a failing output, and the order of prompts and reads.
\<close>

datatype exit_status = Success | Panicked panic

datatype event = Printed string | ReadLine read_result

record terminal =
  history :: "event list"
  pending :: "read_result list"
  accepts :: "nat option"

type_synonym 'a io = "terminal \<Rightarrow> 'a exec \<times> terminal"

type_synonym locals = "TicTacToeBoard \<times> BoardCell \<times> GameState"

definition io_return :: "'a \<Rightarrow> 'a io" where
  "io_return x t = (Inr x, t)"

definition io_bind :: "'a io \<Rightarrow> ('a \<Rightarrow> 'b io) \<Rightarrow> 'b io" where
  "io_bind m f t = (case m t of (Inl p, t') \<Rightarrow> (Inl p, t') | (Inr x, t') \<Rightarrow> f x t')"

definition io_lift :: "'a exec \<Rightarrow> 'a io" where
  "io_lift e t = (e, t)"

definition println_io :: "string \<Rightarrow> unit io" where
  "println_io s t =
     (case accepts t of
        None \<Rightarrow> (Inr (), t\<lparr>history := history t @ [Printed s]\<rparr>)
      | Some 0 \<Rightarrow> (Inl FailedPrinting, t)
      | Some (Suc k) \<Rightarrow> (Inr (), t\<lparr>history := history t @ [Printed s], accepts := Some k\<rparr>))"

definition read_line_io :: "read_result io" where
  "read_line_io t =
     (Inr (fst (next_read (pending t))),
      t\<lparr>history := history t @ [ReadLine (fst (next_read (pending t)))],
        pending := snd (next_read (pending t))\<rparr>)"

definition turn_io :: "locals \<Rightarrow> locals io" where
  "turn_io vars =
     (case vars of (board', playerState', gameState') \<Rightarrow>
        io_bind (io_lift (fmt_TicTacToeBoard board')) (\<lambda>shown.
        io_bind (println_io shown) (\<lambda>_.
        io_bind (io_lift (prompt playerState')) (\<lambda>asked.
        io_bind (println_io asked) (\<lambda>_.
        io_bind read_line_io (\<lambda>input.
          case input of
            ReadErr \<Rightarrow> io_return vars
          | ReadOk userInput \<Rightarrow>
              (case parse_line userInput of
                 Inl e \<Rightarrow> io_bind (println_io (fmt_line_error e)) (\<lambda>_. io_return vars)
               | Inr (x, y) \<Rightarrow>
                   io_bind (io_lift (changeState board' playerState' (x, y))) (\<lambda>(r, b).
                     case r of
                       Inl e \<Rightarrow>
                         io_bind (println_io (fmt_BoardError e)) (\<lambda>_.
                           io_return (b, playerState', gameState'))
                     | Inr state \<Rightarrow>
                         io_bind (io_lift (next_player playerState')) (\<lambda>p.
                           io_return (b, p, state))))))))))"

fun main_loop_io :: "nat \<Rightarrow> locals \<Rightarrow> terminal \<Rightarrow> (locals exec \<times> terminal) option" where
  "main_loop_io fuel vars t =
     (case snd (snd vars) of
        End _ \<Rightarrow> Some (Inr vars, t)
      | InProgress \<Rightarrow>
          (case fuel of
             0 \<Rightarrow> None
           | Suc fuel' \<Rightarrow>
               (case turn_io vars t of
                  (Inl p, t') \<Rightarrow> Some (Inl p, t')
                | (Inr vars', t') \<Rightarrow> main_loop_io fuel' vars' t')))"

definition main_io :: "nat \<Rightarrow> terminal \<Rightarrow> (unit exec \<times> terminal) option" where
  "main_io fuel t =
     (case main_loop_io fuel (default_board, X, InProgress) t of
        None \<Rightarrow> None
      | Some (Inl p, t') \<Rightarrow> Some (Inl p, t')
      | Some (Inr (board', playerState', gameState'), t') \<Rightarrow>
          Some (println_io (fmt_GameState gameState') t'))"

definition console :: "read_result list \<Rightarrow> nat option \<Rightarrow> terminal" where
  "console stdin limit = \<lparr>history = [], pending = stdin, accepts = limit\<rparr>"

definition printed :: "event \<Rightarrow> string option" where
  "printed e = (case e of Printed s \<Rightarrow> Some s | ReadLine r \<Rightarrow> None)"

definition written :: "terminal \<Rightarrow> string list" where
  "written t = List.map_filter printed (history t)"

definition run :: "nat \<Rightarrow> string \<Rightarrow> nat option \<Rightarrow> (string \<times> exit_status) option" where
  "run fuel bs limit =
     map_option
       (\<lambda>(r, t). (stdout_bytes (written t),
                  case r of Inl p \<Rightarrow> Panicked p | Inr _ \<Rightarrow> Success))
       (main_io fuel (console (lines_of bs) limit))"

subsection \<open>Reference definitions\<close>

fun perform :: "event list \<Rightarrow> unit io" where
  "perform [] = io_return ()"
| "perform (Printed s # es) = io_bind (println_io s) (\<lambda>_. perform es)"
| "perform (ReadLine r # es) =
     (\<lambda>t. perform es
        (t\<lparr>history := history t @ [ReadLine r], pending := snd (next_read (pending t))\<rparr>))"

fun script :: "position \<Rightarrow> read_result list \<Rightarrow> event list" where
  "script p [] = []"
| "script p (r # rs) =
     (case status p of
        End w \<Rightarrow> []
      | InProgress \<Rightarrow>
          [Printed (render (squares p)), Printed (announce (to_move p)), ReadLine r] @
          map Printed (feedback p r) @ script (play_request p (request r)) rs)"

fun cut :: "nat option \<Rightarrow> event list \<Rightarrow> event list" where
  "cut b [] = []"
| "cut b (ReadLine r # es) = ReadLine r # cut b es"
| "cut None (Printed s # es) = Printed s # cut None es"
| "cut (Some 0) (Printed s # es) = []"
| "cut (Some (Suc k)) (Printed s # es) = Printed s # cut (Some k) es"

fun fits :: "nat option \<Rightarrow> event list \<Rightarrow> bool" where
  "fits b [] = True"
| "fits b (ReadLine r # es) = fits b es"
| "fits None (Printed s # es) = fits None es"
| "fits (Some 0) (Printed s # es) = False"
| "fits (Some (Suc k)) (Printed s # es) = fits (Some k) es"

definition locals_of :: "position \<Rightarrow> locals" where
  "locals_of p = (\<lparr>cells = squares p\<rparr>, to_move p, status p)"

definition after_performing ::
  "event list \<Rightarrow> terminal \<Rightarrow> (terminal \<Rightarrow> ('a exec \<times> terminal) option) \<Rightarrow>
   ('a exec \<times> terminal) option" where
  "after_performing es t k =
     (case perform es t of (Inl e, t') \<Rightarrow> Some (Inl e, t') | (Inr u, t') \<Rightarrow> k t')"

definition finish :: "position \<Rightarrow> terminal \<Rightarrow> (locals exec \<times> terminal) option" where
  "finish p t = (case status p of End w \<Rightarrow> Some (Inr (locals_of p), t) | InProgress \<Rightarrow> None)"

fun skip_reads :: "event list \<Rightarrow> read_result list \<Rightarrow> read_result list" where
  "skip_reads [] rs = rs"
| "skip_reads (Printed s # es) rs = skip_reads es rs"
| "skip_reads (ReadLine r # es) rs = skip_reads es (snd (next_read rs))"

definition output_of :: "unit exec \<times> terminal \<Rightarrow> string list exec" where
  "output_of rt = (case rt of (Inl e, t) \<Rightarrow> Inl e | (Inr u, t) \<Rightarrow> Inr (written t))"

definition dialogue :: "nat \<Rightarrow> read_result list \<Rightarrow> event list" where
  "dialogue n stdin =
     script start (reads n stdin) @
     (case status (play_all start (requests (reads n stdin))) of
        End w \<Rightarrow> [Printed (fmt_GameState (End w))]
      | InProgress \<Rightarrow> [])"

fun asks_before_reading :: "string list \<Rightarrow> event list \<Rightarrow> bool" where
  "asks_before_reading shown [] = True"
| "asks_before_reading shown (Printed s # es) = asks_before_reading (shown @ [s]) es"
| "asks_before_reading shown (ReadLine r # es) =
     (2 \<le> length shown \<and> (last shown = ''Player 1: '' \<or> last shown = ''Player 2: '') \<and>
      asks_before_reading [] es)"

lemmas process_defs =
  io_return_def io_bind_def io_lift_def println_io_def read_line_io_def turn_io_def main_io_def
  console_def printed_def written_def run_def locals_of_def output_of_def dialogue_def

lemmas [exec_eval] = process_defs main_loop_io.simps

subsection \<open>Sequencing\<close>

lemma io_bind_return [simp]: "io_bind (io_return x) f = f x"
  by (simp add: io_bind_def io_return_def fun_eq_iff)

lemma io_return_bind [simp]: "io_bind m io_return = m"
  by (auto simp: io_bind_def io_return_def fun_eq_iff split: prod.splits sum.splits)

lemma io_bind_assoc: "io_bind (io_bind m f) g = io_bind m (\<lambda>x. io_bind (f x) g)"
  by (auto simp: io_bind_def fun_eq_iff split: prod.splits sum.splits)

lemma io_bind_lift [simp]:
  "io_bind (io_lift (Inr x)) f = f x"
  "io_bind (io_lift (Inl p)) f t = (Inl p, t)"
  by (simp_all add: io_bind_def io_lift_def fun_eq_iff)

lemma io_bind_cases:
  "io_bind m f t =
     (case m t of (Inl p, t') \<Rightarrow> (Inl p, t') | (Inr x, t') \<Rightarrow> f x t')"
  by (simp add: io_bind_def)

subsection \<open>Printing and reading\<close>

lemma printed_simps [simp]: "printed (Printed s) = Some s" "printed (ReadLine r) = None"
  by (simp_all add: printed_def)

lemma map_filter_printed_simps [simp]:
  "List.map_filter printed [] = []"
  "List.map_filter printed (Printed s # es) = s # List.map_filter printed es"
  "List.map_filter printed (ReadLine r # es) = List.map_filter printed es"
  "List.map_filter printed (es @ es') = List.map_filter printed es @ List.map_filter printed es'"
  "List.map_filter printed (map Printed ls) = ls"
  by (simp_all add: List.map_filter_def comp_def)

lemma perform_append: "perform (es @ es') = io_bind (perform es) (\<lambda>_. perform es')"
proof (induction es)
  case Nil
  show ?case by simp
next
  case (Cons e es)
  then show ?case
    by (cases e) (simp_all add: io_bind_assoc, simp add: io_bind_def fun_eq_iff)
qed

lemma perform_cut:
  "fst (perform es t) = (if fits (accepts t) es then Inr () else Inl FailedPrinting) \<and>
   history (snd (perform es t)) = history t @ cut (accepts t) es"
proof (induction es arbitrary: t)
  case Nil
  show ?case by (simp add: io_return_def)
next
  case (Cons e es)
  show ?case
  proof (cases e)
    case (ReadLine r)
    with Cons [of "t\<lparr>history := history t @ [ReadLine r],
        pending := snd (next_read (pending t))\<rparr>"]
    show ?thesis by (simp add:)
  next
    case (Printed s)
    show ?thesis
    proof (cases "accepts t")
      case None
      with Printed Cons [of "t\<lparr>history := history t @ [Printed s]\<rparr>"] show ?thesis
        by (simp add: io_bind_cases println_io_def)
    next
      case (Some k)
      show ?thesis
      proof (cases k)
        case 0
        with Some Printed show ?thesis by (simp add: io_bind_cases println_io_def)
      next
        case (Suc k')
        with Some Printed
          Cons [of "t\<lparr>history := history t @ [Printed s], accepts := Some k'\<rparr>"]
        show ?thesis by (simp add: io_bind_cases println_io_def)
      qed
    qed
  qed
qed

lemma cut_unlimited [simp]: "cut None es = es"
proof (induction es)
  case Nil
  show ?case by simp
next
  case (Cons e es)
  then show ?case by (cases e) simp_all
qed

lemma written_cut_limited:
  "List.map_filter printed (cut (Some k) es) = take k (List.map_filter printed es)"
proof (induction es arbitrary: k)
  case Nil
  show ?case by simp
next
  case (Cons e es)
  then show ?case by (cases e; cases k) simp_all
qed

lemma fits_unlimited [simp]: "fits None es"
proof (induction es)
  case Nil
  show ?case by simp
next
  case (Cons e es)
  then show ?case by (cases e) simp_all
qed

lemma fits_limited: "fits (Some k) es \<longleftrightarrow> length (List.map_filter printed es) \<le> k"
proof (induction es arbitrary: k)
  case Nil
  show ?case by simp
next
  case (Cons e es)
  then show ?case by (cases e; cases k) simp_all
qed

lemma prefix_cut: "prefix (cut b es) es"
  by (induction b es rule: cut.induct) simp_all

subsection \<open>One iteration\<close>

lemma println_io_pending:
  "println_io s t = (Inr u, t') \<Longrightarrow> pending t' = pending t"
  by (auto simp: println_io_def split: option.splits nat.splits)

lemma io_bind_println_cong:
  assumes "\<And>t'. pending t' = pending t \<Longrightarrow> f () t' = g () t'"
  shows "io_bind (println_io s) f t = io_bind (println_io s) g t"
  using assms
  by (auto simp: io_bind_cases dest: println_io_pending split: prod.splits sum.splits)

lemma perform_map_Printed_Cons:
  "perform (map Printed (s # ss)) = io_bind (println_io s) (\<lambda>_. perform (map Printed ss))"
  by simp

lemma locals_of_simps [simp]:
  "fst (locals_of p) = \<lparr>cells = squares p\<rparr>"
  "fst (snd (locals_of p)) = to_move p"
  "snd (snd (locals_of p)) = status p"
  by (simp_all add: locals_of_def)

lemma locals_of_start [simp]: "locals_of start = (default_board, X, InProgress)"
  by (simp add: locals_of_def start_def default_board_def empty_grid_def)

lemma game_inv_conc_game [simp]: "game_inv (conc_game p out) \<longleftrightarrow> legal p"
  by (simp add: game_inv_def)

lemma changeState_in_position:
  assumes "legal p" and "status p = InProgress"
  shows "changeState \<lparr>cells = squares p\<rparr> (to_move p) (x, y) =
    Inr (board_result \<lparr>cells = squares p\<rparr>
          (apply_move (squares p) (to_move p) (unat x) (unat y)))"
proof -
  from assms have "game_inv (conc_game p [])" and "gameState (conc_game p []) = InProgress"
    by simp_all
  from changeState_in_game [OF this, of x y] show ?thesis
    by (simp add: conc_game_def)
qed

lemma respond_play:
  assumes "legal p" and "status p = InProgress"
  shows "(case r of
            ReadErr \<Rightarrow> io_return (locals_of p)
          | ReadOk userInput \<Rightarrow>
              (case parse_line userInput of
                 Inl e \<Rightarrow>
                   io_bind (println_io (fmt_line_error e)) (\<lambda>_. io_return (locals_of p))
               | Inr (x, y) \<Rightarrow>
                   io_bind (io_lift (changeState \<lparr>cells = squares p\<rparr> (to_move p) (x, y)))
                     (\<lambda>(r, b).
                       case r of
                         Inl e \<Rightarrow>
                           io_bind (println_io (fmt_BoardError e)) (\<lambda>_.
                             io_return (b, to_move p, status p))
                       | Inr state \<Rightarrow>
                           io_bind (io_lift (next_player (to_move p))) (\<lambda>q.
                             io_return (b, q, state))))) =
    io_bind (perform (map Printed (feedback p r)))
      (\<lambda>_. io_return (locals_of (play_request p (request r))))"
proof -
  from assms(1) have m: "is_mark (to_move p)" by (simp add: legal_def)
  show ?thesis
  proof (cases "request r")
    case None
    then show ?thesis
      by (auto simp: request_def feedback_def io_bind_assoc
          split: read_result.splits sum.splits prod.splits)
  next
    case (Some q)
    then obtain s x y where r: "r = ReadOk s" "parse_line s = Inr (x, y)" "q = (unat x, unat y)"
      by (auto simp: request_def split: read_result.splits sum.splits prod.splits)
    with assms m Some show ?thesis
      by (cases "apply_move (squares p) (to_move p) (unat x) (unat y)")
        (auto simp: locals_of_def next_player_ok changeState_in_position feedback_def play_def
          io_bind_assoc)
  qed
qed

lemma turn_io_play:
  assumes "legal p" and "status p = InProgress"
  shows "turn_io (locals_of p) t =
    io_bind
      (perform ([Printed (render (squares p)), Printed (announce (to_move p)),
                 ReadLine (fst (next_read (pending t)))] @
                map Printed (feedback p (fst (next_read (pending t))))))
      (\<lambda>_. io_return (locals_of (play_request p (request (fst (next_read (pending t))))))) t"
proof -
  from assms(1) have wf: "wf_board \<lparr>cells = squares p\<rparr>" and m: "is_mark (to_move p)"
    by (simp_all add: legal_def wf_board_def)
  from wf m show ?thesis
    unfolding turn_io_def locals_of_def
    apply (simp add: fmt_TicTacToeBoard_ok prompt_ok io_bind_assoc del: perform.simps(2,3))
    apply (simp add: io_bind_assoc)
    apply (rule io_bind_println_cong)
    apply (rule io_bind_println_cong)
    apply (simp add: io_bind_cases [of read_line_io] read_line_io_def
        respond_play [OF assms, unfolded locals_of_def])
    apply (simp add: io_bind_cases)
    done
qed

subsection \<open>The events performed\<close>

lemma skip_reads_map_Printed [simp]: "skip_reads (map Printed ls) rs = rs"
  by (induction ls) simp_all

lemma skip_reads_append [simp]: "skip_reads (es @ es') rs = skip_reads es' (skip_reads es rs)"
  by (induction es rs rule: skip_reads.induct) simp_all

lemma perform_pending:
  "perform es t = (Inr u, t') \<Longrightarrow> pending t' = skip_reads es (pending t)"
proof (induction es arbitrary: t)
  case Nil
  then show ?case by (simp add: io_return_def)
next
  case (Cons e es)
  show ?case
  proof (cases e)
    case (ReadLine r)
    with Cons show ?thesis by auto
  next
    case (Printed s)
    with Cons.prems obtain t1 where "println_io s t = (Inr (), t1)" "perform es t1 = (Inr u, t')"
      by (auto simp: io_bind_cases split: prod.splits sum.splits)
    with Cons.IH [of t1] Printed show ?thesis by (simp add: println_io_pending)
  qed
qed

subsection \<open>The loop\<close>

lemma main_loop_io_ended [simp]:
  "status p = End w \<Longrightarrow> main_loop_io fuel (locals_of p) t = Some (Inr (locals_of p), t)"
  by simp

lemma main_loop_io_0 [simp]:
  "status p = InProgress \<Longrightarrow> main_loop_io 0 (locals_of p) t = None"
  by simp

lemma main_loop_io_Suc:
  "status p = InProgress \<Longrightarrow>
   main_loop_io (Suc fuel) (locals_of p) t =
     (case turn_io (locals_of p) t of
        (Inl e, t') \<Rightarrow> Some (Inl e, t')
      | (Inr vars, t') \<Rightarrow> main_loop_io fuel vars t')"
  by simp

declare main_loop_io.simps [simp del]

lemma after_performing_Nil [simp]: "after_performing [] t k = k t"
  by (simp add: after_performing_def io_return_def)

lemma after_performing_append:
  "after_performing (es @ es') t k = after_performing es t (\<lambda>t'. after_performing es' t' k)"
  by (simp add: after_performing_def perform_append io_bind_cases
      split: prod.splits sum.splits)

lemma after_performing_cong:
  assumes "\<And>t'. pending t' = skip_reads es (pending t) \<Longrightarrow> k t' = k' t'"
  shows "after_performing es t k = after_performing es t k'"
  using assms
  by (auto simp: after_performing_def dest: perform_pending split: prod.splits sum.splits)

lemma main_loop_io_step:
  assumes "legal p" and "status p = InProgress"
  shows "main_loop_io (Suc fuel) (locals_of p) t =
    after_performing
      ([Printed (render (squares p)), Printed (announce (to_move p)),
        ReadLine (fst (next_read (pending t)))] @
       map Printed (feedback p (fst (next_read (pending t))))) t
      (main_loop_io fuel (locals_of (play_request p (request (fst (next_read (pending t)))))))"
  using assms
  by (simp add: main_loop_io_Suc turn_io_play after_performing_def io_bind_cases io_return_def
      del: perform.simps split: prod.splits sum.splits)

lemma main_loop_io_script:
  assumes "legal p"
  shows "main_loop_io n (locals_of p) t =
    after_performing (script p (reads n (pending t))) t
      (finish (play_all p (requests (reads n (pending t)))))"
  using assms
proof (induction n arbitrary: p t)
  case 0
  then show ?case by (cases "status p") (simp_all add: finish_def)
next
  case (Suc n)
  show ?case
  proof (cases "status p")
    case (End w)
    then show ?thesis by (simp add: finish_def)
  next
    case InProgress
    let ?r = "fst (next_read (pending t))" and ?rest = "snd (next_read (pending t))"
    let ?p = "play_request p (request ?r)"
    let ?E = "[Printed (render (squares p)), Printed (announce (to_move p)), ReadLine ?r] @
      map Printed (feedback p ?r)"
    from Suc.prems InProgress
    have step: "main_loop_io (Suc n) (locals_of p) t =
        after_performing ?E t (main_loop_io n (locals_of ?p))"
      by (rule main_loop_io_step)
    from Suc.prems have "legal ?p" by (rule legal_play_request)
    then have "after_performing ?E t (main_loop_io n (locals_of ?p)) =
        after_performing ?E t
          (\<lambda>t'. after_performing (script ?p (reads n ?rest)) t'
             (finish (play_all ?p (requests (reads n ?rest)))))"
      by (intro after_performing_cong) (simp add: Suc.IH)
    moreover from InProgress
    have "script p (reads (Suc n) (pending t)) = ?E @ script ?p (reads n ?rest)"
      by simp
    moreover have "play_all p (requests (reads (Suc n) (pending t))) =
        play_all ?p (requests (reads n ?rest))"
      by (simp add: play_all_requests_step del: requests_simps)
    ultimately show ?thesis
      by (simp only: step after_performing_append)
  qed
qed

subsection \<open>The whole program\<close>

lemma printed_script [simp]: "List.map_filter printed (script p rs) = narrate p rs"
  by (induction rs arbitrary: p) (simp_all split: GameState.splits)

lemma printed_dialogue:
  "List.map_filter printed (dialogue n stdin) =
     narrate start (reads n stdin) @
     (case status (play_all start (requests (reads n stdin))) of
        End w \<Rightarrow> [fmt_GameState (End w)]
      | InProgress \<Rightarrow> [])"
  by (simp add: dialogue_def split: GameState.splits)

lemma after_performing_println:
  "after_performing es t (\<lambda>t'. Some (println_io s t')) = Some (perform (es @ [Printed s]) t)"
  by (simp add: after_performing_def perform_append io_bind_cases
      split: prod.splits sum.splits)

lemma after_performing_None:
  "after_performing es t (\<lambda>t'. None) =
     (if fits (accepts t) es then None else Some (perform es t))"
  using perform_cut [of es t]
  by (auto simp: after_performing_def split: prod.splits sum.splits if_splits)

lemma main_io_script:
  "main_io n t =
     after_performing (script start (reads n (pending t))) t
       (\<lambda>t'. case status (play_all start (requests (reads n (pending t)))) of
                End w \<Rightarrow> Some (println_io (fmt_GameState (End w)) t')
              | InProgress \<Rightarrow> None)"
proof -
  have "main_loop_io n (default_board, X, InProgress) t =
      after_performing (script start (reads n (pending t))) t
        (finish (play_all start (requests (reads n (pending t)))))"
    using main_loop_io_script [OF legal_start, of n t] by simp
  then show ?thesis
    by (auto simp: main_io_def after_performing_def finish_def locals_of_def
        split: prod.splits sum.splits GameState.splits)
qed

lemma main_io_perform:
  "main_io n t =
     (if status (play_all start (requests (reads n (pending t)))) = InProgress \<and>
         fits (accepts t) (dialogue n (pending t))
      then None else Some (perform (dialogue n (pending t)) t))"
  by (cases "status (play_all start (requests (reads n (pending t))))")
    (simp_all add: main_io_script dialogue_def after_performing_None after_performing_println)

lemma written_perform:
  "written (snd (perform es t)) = written t @ List.map_filter printed (cut (accepts t) es)"
  using perform_cut [of es t] by (simp add: written_def)

lemma output_of_perform:
  "output_of (perform es t) =
     (if fits (accepts t) es then Inr (written t @ List.map_filter printed es)
      else Inl FailedPrinting)"
proof (cases "fits (accepts t) es")
  case True
  with perform_cut [of es t] written_perform [of es t] show ?thesis
    by (cases "accepts t")
      (auto simp: output_of_def fits_limited written_cut_limited split: prod.splits sum.splits)
next
  case False
  with perform_cut [of es t] show ?thesis
    by (auto simp: output_of_def split: prod.splits sum.splits)
qed

lemma written_console [simp]: "written (console stdin limit) = []"
  by (simp add: written_def console_def)

lemma console_simps [simp]:
  "history (console stdin limit) = []" "pending (console stdin limit) = stdin"
  "accepts (console stdin limit) = limit"
  by (simp_all add: console_def)

lemma main_io_reliable: "map_option output_of (main_io n (console stdin None)) = main n stdin"
  by (simp add: main_io_perform output_of_perform main_narrate printed_dialogue
      split: GameState.splits)

lemma asks_before_reading_append:
  "asks_before_reading shown (es @ es') \<Longrightarrow> asks_before_reading shown es"
  by (induction shown es rule: asks_before_reading.induct) simp_all

lemma asks_before_reading_prefix:
  "prefix es es' \<Longrightarrow> asks_before_reading shown es' \<Longrightarrow> asks_before_reading shown es"
  by (auto simp: prefix_def dest: asks_before_reading_append)

lemma asks_before_reading_Printed:
  "asks_before_reading shown (map Printed ls @ es) = asks_before_reading (shown @ ls) es"
  by (induction ls arbitrary: shown) simp_all

lemma announce_cases: "announce p = ''Player 1: '' \<or> announce p = ''Player 2: ''"
  by (simp add: announce_def)

lemma asks_before_reading_script: "asks_before_reading shown (script p rs @ map Printed ls)"
proof (induction rs arbitrary: p shown)
  case Nil
  show ?case using asks_before_reading_Printed [of shown ls "[]"] by simp
next
  case (Cons r rs)
  show ?case
  proof (cases "status p")
    case (End w)
    then show ?thesis using asks_before_reading_Printed [of shown ls "[]"] by simp
  next
    case InProgress
    with Cons [of "feedback p r" "play_request p (request r)"] announce_cases [of "to_move p"]
    show ?thesis by (auto simp: asks_before_reading_Printed)
  qed
qed

lemma asks_before_reading_dialogue: "asks_before_reading [] (dialogue n stdin)"
proof (cases "status (play_all start (requests (reads n stdin)))")
  case InProgress
  with asks_before_reading_script [of "[]" start "reads n stdin" "[]"] show ?thesis
    by (simp add: dialogue_def)
next
  case (End w)
  with asks_before_reading_script [of "[]" start "reads n stdin" "[fmt_GameState (End w)]"]
  show ?thesis by (simp add: dialogue_def)
qed

lemma main_io_history:
  assumes "main_io n t = Some (res, t')"
  shows "history t' = history t @ cut (accepts t) (dialogue n (pending t))"
  using assms perform_cut [of "dialogue n (pending t)" t]
  by (auto simp: main_io_perform split: if_splits)

lemma main_io_fails:
  assumes "accepts t = Some k"
    and "status (play_all start (requests (reads n (pending t)))) = InProgress" and "k < 2 * n"
  shows "\<exists>t'. main_io n t = Some (Inl FailedPrinting, t') \<and>
    written t' = written t @ take k (narrate start (reads n (pending t)))"
proof -
  let ?es = "dialogue n (pending t)"
  from assms(2) have es: "List.map_filter printed ?es = narrate start (reads n (pending t))"
    by (simp add: printed_dialogue)
  from length_narrate [OF assms(2)] assms(3) have "k < length (narrate start (reads n (pending t)))"
    by simp
  with assms(1) es have no: "\<not> fits (accepts t) ?es" by (simp add: fits_limited)
  then have "main_io n t = Some (perform ?es t)" by (simp add: main_io_perform)
  moreover from no perform_cut [of ?es t] have "fst (perform ?es t) = Inl FailedPrinting"
    by simp
  moreover from assms(1) es have "written (snd (perform ?es t)) =
      written t @ take k (narrate start (reads n (pending t)))"
    by (simp add: written_perform written_cut_limited)
  ultimately show ?thesis
    by (intro exI [of _ "snd (perform ?es t)"]) (simp add: prod_eq_iff)
qed

lemma main_io_limited_ends:
  assumes "accepts t = Some k"
  shows "main_io (Suc (k div 2)) t \<noteq> None"
proof (cases "status (play_all start (requests (reads (Suc (k div 2)) (pending t))))")
  case InProgress
  with assms have "\<exists>t'. main_io (Suc (k div 2)) t = Some (Inl FailedPrinting, t') \<and>
      written t' = written t @ take k (narrate start (reads (Suc (k div 2)) (pending t)))"
    by (rule main_io_fails) simp
  then show ?thesis by auto
next
  case (End w)
  then show ?thesis by (simp add: main_io_perform)
qed

lemma main_io_limited:
  assumes "main n stdin = Some (Inr out)"
  shows "main_io n (console stdin limit) = Some (perform (dialogue n stdin) (console stdin limit))"
    and "List.map_filter printed (dialogue n stdin) = out"
  using assms
  by (auto simp: main_narrate main_io_perform printed_dialogue split: GameState.splits)

subsection \<open>Bytes and exit status\<close>

lemma run_is_process:
  "(run fuel bs None = None \<longleftrightarrow> process fuel bs = None) \<and>
   (run fuel bs None = Some (out, Success) \<longleftrightarrow> process fuel bs = Some (Inr out))"
  unfolding run_def process_eq main_io_reliable [symmetric]
  by (auto simp: output_of_def option.map_comp comp_def map_option_case
      split: option.splits prod.splits sum.splits)

section \<open>Properties of the process\<close>

text \<open>
  C7 (equivalence). With a standard output that never fails the process is \<open>main\<close> of
  \<open>TTT_Game\<close>: for every input and every number of iterations the one runs out of
  fuel exactly when the other does, and otherwise the lines written are the lines
  that \<open>main\<close> returns. So what is proved of \<open>main\<close> holds of the program as long as
  its output is accepted.
\<close>

theorem reliable_output_is_main:
  "map_option output_of (main_io n (console stdin None)) = main n stdin"
  by (simp add: main_io_perform output_of_perform main_narrate printed_dialogue
      split: GameState.splits)

text \<open>
  C19 (termination). With a standard output that fails the program always ends: if
  the output accepts \<open>k\<close> more lines, then \<open>k div 2 + 1\<close> iterations end \<open>main\<close> on every
  input, since each iteration prints at least the board and the prompt. When the
  moves of the input do not end the game, so that the program would run for ever
  with a reliable output, it ends by the panic of \<^verbatim>\<open>println!\<close>, having written
  exactly the first \<open>k\<close> lines of its output.
\<close>

theorem closed_output_terminates:
  assumes "accepts t = Some k"
  shows "main_io (Suc (k div 2)) t \<noteq> None \<and>
    (status (play_all start (requests (pending t))) = InProgress \<longrightarrow>
     (\<exists>t'. main_io (Suc (k div 2)) t = Some (Inl FailedPrinting, t') \<and>
        written t' =
          written t @ take k (narrate start (reads (Suc (k div 2)) (pending t)))))"
proof (intro conjI impI)
  from assms show "main_io (Suc (k div 2)) t \<noteq> None" by (rule main_io_limited_ends)
next
  assume "status (play_all start (requests (pending t))) = InProgress"
  then have "status (play_all start (requests (reads (Suc (k div 2)) (pending t)))) =
      InProgress"
    by (rule reads_in_progress)
  with assms show "\<exists>t'. main_io (Suc (k div 2)) t = Some (Inl FailedPrinting, t') \<and>
      written t' = written t @ take k (narrate start (reads (Suc (k div 2)) (pending t)))"
    by (rule main_io_fails) simp
qed

theorem closed_output_terminates_witness:
  "accepts (console [] (Some 3)) = Some 3 \<and>
   status (play_all start (requests (pending (console [] (Some 3))))) = InProgress \<and>
   main_io 2 (console [] (Some 3)) =
     Some (Inl FailedPrinting,
           \<lparr>history =
              [Printed '' | | \<newline>-+-+-\<newline> | | \<newline>-+-+-\<newline> | | \<newline>'', Printed ''Player 1: '',
               ReadLine (ReadOk []), Printed ''Incorrect number of arguments''],
            pending = [], accepts = Some 0\<rparr>)"
  using closed_output_terminates [of "console [] (Some 3)" 3]
  by (simp add: exec_eval)

text \<open>
  C20 (error). A failing output cuts the output and nothing else. If \<open>main\<close> returns
  the lines \<open>out\<close> and the output accepts \<open>k\<close> lines, the process returns when \<open>out\<close>
  has at most \<open>k\<close> lines and otherwise panics in the call of \<^verbatim>\<open>println!\<close> for line
  \<open>k + 1\<close>; in both cases it has written the first \<open>k\<close> lines of \<open>out\<close>.
\<close>

theorem failed_printing_cuts_output:
  assumes "main n stdin = Some (Inr out)"
  shows "\<exists>t'. main_io n (console stdin (Some k)) =
      Some (if length out \<le> k then Inr () else Inl FailedPrinting, t') \<and>
    written t' = take k out"
proof -
  let ?t = "console stdin (Some k)" and ?es = "dialogue n stdin"
  from assms have run: "main_io n ?t = Some (perform ?es ?t)"
    and out: "List.map_filter printed ?es = out"
    by (rule main_io_limited)+
  from out perform_cut [of ?es ?t]
  have "fst (perform ?es ?t) = (if length out \<le> k then Inr () else Inl FailedPrinting)"
    by (simp add: fits_limited)
  moreover from out have "written (snd (perform ?es ?t)) = take k out"
    by (simp add: written_perform written_cut_limited)
  ultimately show ?thesis
    using run by (intro exI [of _ "snd (perform ?es ?t)"]) (simp add: prod_eq_iff)
qed

theorem failed_printing_cuts_output_witness:
  "\<exists>out t'.
     main 5 [ReadOk ''0 0\<newline>'', ReadOk ''0 1\<newline>'', ReadOk ''1 0\<newline>'', ReadOk ''0 2\<newline>'',
             ReadOk ''2 0\<newline>''] = Some (Inr out) \<and>
     length out = 11 \<and>
     main_io 5
       (console [ReadOk ''0 0\<newline>'', ReadOk ''0 1\<newline>'', ReadOk ''1 0\<newline>'', ReadOk ''0 2\<newline>'',
                 ReadOk ''2 0\<newline>''] (Some 3)) = Some (Inl FailedPrinting, t') \<and>
     written t' =
       ['' | | \<newline>-+-+-\<newline> | | \<newline>-+-+-\<newline> | | \<newline>'', ''Player 1: '',
        ''X| | \<newline>-+-+-\<newline> | | \<newline>-+-+-\<newline> | | \<newline>'']"
proof -
  have out: "main 5 [ReadOk ''0 0\<newline>'', ReadOk ''0 1\<newline>'', ReadOk ''1 0\<newline>'', ReadOk ''0 2\<newline>'',
      ReadOk ''2 0\<newline>''] =
    Some (Inr ['' | | \<newline>-+-+-\<newline> | | \<newline>-+-+-\<newline> | | \<newline>'', ''Player 1: '',
               ''X| | \<newline>-+-+-\<newline> | | \<newline>-+-+-\<newline> | | \<newline>'', ''Player 2: '',
               ''X| | \<newline>-+-+-\<newline>O| | \<newline>-+-+-\<newline> | | \<newline>'', ''Player 1: '',
               ''X|X| \<newline>-+-+-\<newline>O| | \<newline>-+-+-\<newline> | | \<newline>'', ''Player 2: '',
               ''X|X| \<newline>-+-+-\<newline>O| | \<newline>-+-+-\<newline>O| | \<newline>'', ''Player 1: '',
               ''Player 1 wins!''])"
    by (simp add: exec_eval)
  from failed_printing_cuts_output [OF out, of 3] out show ?thesis by auto
qed

text \<open>
  C8 (safety). The program asks before it reads. Whatever the input and the
  output are, when \<open>main\<close> ends the calls of \<^verbatim>\<open>println!\<close> and \<^verbatim>\<open>read_line\<close> it has made
  are, in their order, a beginning of the dialogue of the game: the board, the
  prompt, the read, the message if the line is refused, and so on, and the
  announcement at the end; they are all of it unless a write failed. So every
  read comes after two lines at least were printed since the read before, the
  last of them a prompt.
\<close>

theorem dialogue_in_order:
  assumes "main_io n (console stdin limit) = Some (res, t')"
  shows "history t' = cut limit (dialogue n stdin) \<and> prefix (history t') (dialogue n stdin) \<and>
    asks_before_reading [] (history t')"
proof -
  from main_io_history [OF assms] have h: "history t' = cut limit (dialogue n stdin)"
    by simp
  moreover have p: "prefix (cut limit (dialogue n stdin)) (dialogue n stdin)"
    by (rule prefix_cut)
  moreover from p asks_before_reading_dialogue
  have "asks_before_reading [] (cut limit (dialogue n stdin))"
    by (rule asks_before_reading_prefix)
  ultimately show ?thesis by simp
qed

theorem dialogue_in_order_witness:
  "main_io 2 (console [ReadOk ''x\<newline>''] (Some 3)) =
     Some (Inl FailedPrinting,
           \<lparr>history =
              [Printed '' | | \<newline>-+-+-\<newline> | | \<newline>-+-+-\<newline> | | \<newline>'', Printed ''Player 1: '',
               ReadLine (ReadOk ''x\<newline>''), Printed ''Incorrect number of arguments''],
            pending = [], accepts = Some 0\<rparr>) \<and>
   asks_before_reading []
     [Printed '' | | \<newline>-+-+-\<newline> | | \<newline>-+-+-\<newline> | | \<newline>'', Printed ''Player 1: '',
      ReadLine (ReadOk ''x\<newline>''), Printed ''Incorrect number of arguments'']"
proof -
  let ?t = "\<lparr>history =
      [Printed '' | | \<newline>-+-+-\<newline> | | \<newline>-+-+-\<newline> | | \<newline>'', Printed ''Player 1: '',
       ReadLine (ReadOk ''x\<newline>''), Printed ''Incorrect number of arguments''],
    pending = [], accepts = Some 0\<rparr>"
  have run: "main_io 2 (console [ReadOk ''x\<newline>''] (Some 3)) = Some (Inl FailedPrinting, ?t)"
    by (simp add: exec_eval)
  from dialogue_in_order [OF run] have "asks_before_reading [] (history ?t)"
    by (elim conjE)
  with run show ?thesis by simp
qed

end
