(* ===== verification/Spec2Isabelle.thy ===== *)
theory Spec2Isabelle
  imports
    TTT_Prelude TTT_Types TTT_Rules TTT_Play TTT_Board TTT_Profile TTT_Input TTT_Game
    TTT_Console TTT_Utf8 TTT_Process
begin

text \<open>
  \<^bold>\<open>A verification development for tictacterm\<close>

  The program (\<^verbatim>\<open>src/src/main.rs\<close>, 173 lines of Rust) is a two-player game of
  noughts and crosses on a text console. It has two parts. The board
  (\<^verbatim>\<open>TicTacToeBoard\<close> with \<^verbatim>\<open>changeState\<close>, \<^verbatim>\<open>checkVertical\<close>, \<^verbatim>\<open>checkHorizontal\<close> and
  \<^verbatim>\<open>isFull\<close>) holds the nine cells, validates a move, places the mark and decides
  whether the move ends the game. The turn loop (\<^verbatim>\<open>main\<close>) prints the board and a
  prompt, reads a line, splits and parses it, calls \<^verbatim>\<open>changeState\<close>, prints a
  message when the line is refused, and passes the turn to the other player
  when the move is accepted. The board never refuses a move because the game is
  over: that is left to the loop, which stops calling it.

  \<^bold>\<open>Theories\<close>

  \<^item> \<open>TTT_Prelude\<close>: what Rust does at run time and the source does not spell out:
    \<open>usize\<close> as a 64-bit word, panics as values (\<open>'a exec = panic + 'a\<close>), checked
    \<open>+\<close> and \<open>*\<close>, bounds-checked array reads and writes, the short-circuit \<open>&&\<close>,
    the evaluation of a list of arguments and of a format string; with the lemma
    collections \<open>exec_eval\<close> and \<open>exec_ok\<close>.
  \<^item> \<open>TTT_Types\<close>: the enumerations \<open>BoardCell\<close>, \<open>BoardError\<close> and \<open>GameState\<close> and
    their \<^verbatim>\<open>Display\<close> texts.
  \<^item> \<open>TTT_Rules\<close>: the rules of the game as the specification gives them, on a
    grid indexed by natural numbers: the eight lines, \<open>wins\<close>, \<open>full\<close>, \<open>outcome\<close>,
    \<open>apply_move\<close>, and the picture of a grid, \<open>render\<close>. This is the abstract
    specification of the board; it models no code. Its main lemma,
    \<open>wins_after_move\<close>, says that after a mark is placed it is enough to look at
    the column and the row of the move and at the two diagonals.
  \<^item> \<open>TTT_Play\<close>: the game as a state machine over the rules (\<open>position\<close>, \<open>play\<close>,
    the indexed reachability \<open>reached\<close>) and its invariant \<open>legal\<close>. This is the
    abstract specification of the loop; it models no code.
  \<^item> \<open>TTT_Board\<close>: the struct and its methods, line by line (\<open>default_board\<close>,
    \<open>isFull\<close>, \<open>checkVertical\<close>, \<open>checkHorizontal\<close>, \<open>changeState\<close>,
    \<open>fmt_TicTacToeBoard\<close>), and the proof that they implement the rules.
  \<^item> \<open>TTT_Profile\<close>: the methods of the board with the arithmetic of a build
    profile (\<open>changeState_in\<close>), checked or wrapping, and the proof that the
    profile makes no difference on a board of nine cells.
  \<^item> \<open>TTT_Input\<close>: the treatment of a line (\<open>split_char\<close>, \<open>trim\<close>, \<open>parse_usize\<close>,
    \<open>parse_line\<close>) with the exact set of accepted lines and the round trips.
  \<^item> \<open>TTT_Game\<close>: the loop (\<open>turn\<close>, \<open>main_loop\<close>, \<open>main\<close>), its reachable states, and
    the proof that it plays the game of \<open>TTT_Play\<close> and prints its narration
    (\<open>narrate\<close>).
  \<^item> \<open>TTT_Console\<close>: the standard input as bytes (\<open>valid_utf8\<close>, \<open>read_line\<close>,
    \<open>lines_of\<close>), the standard output as bytes (\<open>stdout_bytes\<close>), and the program
    from the one to the other (\<open>process\<close>).
  \<^item> \<open>TTT_Utf8\<close>: the characters behind the bytes: a reference encoder and decoder
    of UTF-8 (\<open>encode_utf8\<close>, \<open>decode_utf8\<close>; they model no code), against which the
    validity test of \<^verbatim>\<open>read_line\<close> and the white space of \<^verbatim>\<open>trim\<close> are checked.
  \<^item> \<open>TTT_Process\<close>: the program as a process: \<^verbatim>\<open>main\<close> once more, statement by
    statement, with its prints and reads as effects on a \<open>terminal\<close> whose output
    may fail (\<open>println_io\<close>, \<open>read_line_io\<close>, \<open>turn_io\<close>, \<open>main_loop_io\<close>, \<open>main_io\<close>), and
    what the operating system sees of it (\<open>run\<close>): the bytes written and the exit
    status.
  \<^item> \<open>Spec2Isabelle\<close> (this theory): the scenarios of the specification, run
    through the whole program from the bytes typed to the bytes printed.

  \<^bold>\<open>How the model corresponds to the code\<close>

  A method \<^verbatim>\<open>fn f(&mut self, args) -> T\<close> becomes a function from the board and the
  arguments to \<open>(T \<times> board) exec\<close>; a method on \<^verbatim>\<open>&self\<close> returns \<open>T exec\<close>, or \<open>T\<close>
  when nothing in it can panic (\<open>isFull\<close>). An early \<^verbatim>\<open>return\<close> is the \<open>then\<close> branch
  of an \<open>if\<close> whose \<open>else\<close> branch is the rest of the body. The \<^verbatim>\<open>for\<close> loop of
  \<^verbatim>\<open>isFull\<close> is the recursion \<open>isFull_loop\<close> over the cells, the flag \<^verbatim>\<open>boardFull\<close> its
  accumulator and \<^verbatim>\<open>break\<close> the equation that does not recurse. The local
  variables of \<^verbatim>\<open>main\<close> are the record \<open>Game\<close>, to which the lines printed are added
  as the field \<open>stdout\<close>; the lines read are a list of \<open>read_result\<close>; one iteration
  of the \<^verbatim>\<open>while\<close> loop is \<open>turn\<close>, and each \<^verbatim>\<open>continue\<close> a branch of it that returns
  the state. The constructors \<^verbatim>\<open>O\<close> and \<^verbatim>\<open>None\<close> of \<^verbatim>\<open>BoardCell\<close> are \<open>O_cell\<close> and
  \<open>None_cell\<close>, since \<open>O\<close> and \<open>None\<close> are taken in HOL.

  \<^bold>\<open>What is proved\<close>

  \<^item> Board: \<open>changeState\<close> never panics on a board of nine cells and is
    \<open>apply_move\<close> of the rules (refinement); the four checks after a move are
    equivalent to looking at all eight lines; each error is returned exactly
    under its condition and changes nothing; an accepted move writes one cell;
    the picture of the board can be read back.
  \<^item> Input: the accepted lines and the accepted numbers are characterised
    exactly; printing and parsing are inverse below \<open>2 ^ 64\<close>; larger numbers are
    refused, not wrapped; \<open>trim\<close> removes the white space at both ends and nothing
    else.
  \<^item> Profiles: with and without overflow checks \<open>changeState\<close> returns the same on
    every board of nine cells; the helper \<open>checkHorizontal\<close> would differ for
    rows from \<open>2 ^ 64 div 3\<close> on, which the guard of \<open>changeState\<close> excludes.
  \<^item> Loop: the loop is type safe (from a state with nine cells and a player to
    move an iteration never panics and leaves such a state); one iteration
    refines one \<open>play\<close>; in every reachable state the invariant holds
    (alternating marks, a game state that says what is on the board), so neither
    \<^verbatim>\<open>unreachable!()\<close> is reached; a game has at most nine accepted moves and a
    game in progress can always go on; \<open>main\<close> ends exactly when the moves read
    end the game, and then what it printed is the narration of that game
    followed by the announcement of its outcome.
  \<^item> Console: a valid input is read without loss, line by line; a line that is
    not valid UTF-8 is consumed and dropped.
  \<^item> Process: with an output that never fails \<open>main_io\<close> is \<open>main\<close>; with an
    output that accepts \<open>k\<close> lines it writes the first \<open>k\<close> lines of what \<open>main\<close>
    prints and panics in the next \<^verbatim>\<open>println!\<close>, and it ends on every input, also
    at the end of the input, where \<open>main\<close> runs for ever. Its prints and reads
    happen in the order of the dialogue of the game, every read after the board
    and the prompt.
  \<^item> Texts: the validity test accepts exactly the encodings of sequences of
    Unicode scalar values; the lines read, the pieces of \<^verbatim>\<open>split(' ')\<close> and the
    results of \<^verbatim>\<open>trim()\<close> are valid UTF-8, so the functions on bytes never cut a
    character in two.

  \<^bold>\<open>Bounds and fuel\<close>

  The array \<^verbatim>\<open>[BoardCell; 9]\<close> is a list, and the invariant \<open>wf_board\<close> says it has
  nine elements; it holds for \<open>default_board\<close> and every operation keeps it, so the
  theorems that assume it cover every board the program can build. \<open>usize\<close> is 64
  bits wide; the arithmetic of the board stays below twelve and that of the
  parser is checked against \<open>2 ^ 64\<close> at every digit. The loops of the board and
  of the parser are recursions over a list and need no fuel. The \<^verbatim>\<open>while\<close> loop of
  \<^verbatim>\<open>main\<close> may run for ever, so \<open>main_loop\<close> takes fuel, one unit for each
  iteration, and returns \<open>None\<close> when it runs out. The theorems speak about all
  amounts of fuel: \<open>main_terminates_iff\<close> says when some amount is enough and that
  the number of lines read is then enough, and \<open>end_of_input_never_ends\<close> that no
  amount is enough once the input is used up while the game is in progress.
  For the program on bytes (\<open>process\<close>) as many units as the input has bytes are
  enough, since every line read consumes at least one byte (\<open>process_ends\<close>). The
  recursions of \<open>TTT_Console\<close> (\<open>valid_utf8\<close>, \<open>lines_of\<close>) end because each step
  consumes at least one byte; these are their termination proofs. For an output
  that accepts \<open>k\<close> lines, \<open>k div 2 + 1\<close> units of fuel end \<open>main_io\<close>, since every
  iteration prints two lines at least (\<open>closed_output_terminates\<close>).

  \<^bold>\<open>Not modelled\<close>

  Of the operating system behind the console only this is modelled: the
  standard input is the list of its bytes and is read to its end, and the
  standard output accepts a number of lines and then fails. A read that fails is
  the result \<open>ReadErr\<close> of \<open>TTT_Game\<close>, whose theorems hold for every list of
  results, but \<open>lines_of\<close> produces it for lines that are not valid UTF-8 only.
  Each write is a whole line and either happens or fails; the buffering of the
  two streams, a line written in part and the panic message on the standard
  error are left out. In \<open>TTT_Game\<close> a panic loses what was printed before it;
  \<open>TTT_Process\<close> keeps it. No reachable state panics for another reason than
  a failed write.

  The calls into the standard library (\<^verbatim>\<open>split\<close>, \<^verbatim>\<open>trim\<close>, \<^verbatim>\<open>parse\<close>, \<^verbatim>\<open>read_line\<close>,
  \<^verbatim>\<open>from_utf8\<close>, \<^verbatim>\<open>println!\<close>) are modelled from their documented behaviour, since
  their code is not part of the repository. The capacity of the buffer
  \<^verbatim>\<open>userInput\<close> has no effect on what the program does and is left out. A target
  with a \<^verbatim>\<open>usize\<close> of another width than 64 bits is not covered.
\<close>

section \<open>Scenarios\<close>


text \<open>
  The other outcomes, each read from the bytes of the input and
  judged by the last line printed. The moves (0,0), (1,0), (1,1), (2,0), (2,2) of
  the specification complete the main diagonal for the first player. The moves
  (0,0), (1,1), (0,1), (0,2), (2,2), (2,0) let the second player complete the
  other diagonal. Nine moves that never complete a line end in a draw. A line
  completed by the ninth mark is a win, not a draw, since the checks for a line
  come before the check for a full board.
\<close>

lemma scenario_outcomes:
  "map_option (map_sum id last) (main 5 (lines_of ''0 0\<newline>1 0\<newline>1 1\<newline>2 0\<newline>2 2\<newline>'')) =
     Some (Inr ''Player 1 wins!'') \<and>
   map_option (map_sum id last) (main 6 (lines_of ''0 0\<newline>1 1\<newline>0 1\<newline>0 2\<newline>2 2\<newline>2 0\<newline>'')) =
     Some (Inr ''Player 2 wins!'') \<and>
   map_option (map_sum id last)
     (main 9 (lines_of ''0 0\<newline>1 0\<newline>2 0\<newline>1 1\<newline>0 1\<newline>2 1\<newline>1 2\<newline>0 2\<newline>2 2\<newline>'')) =
     Some (Inr ''The game was a draw'') \<and>
   map_option (map_sum id last)
     (main 9 (lines_of ''0 0\<newline>1 0\<newline>2 0\<newline>0 1\<newline>1 1\<newline>2 1\<newline>1 2\<newline>0 2\<newline>2 2\<newline>'')) =
     Some (Inr ''Player 1 wins!'')"
  by (simp add: exec_eval)

text \<open>
  The two rejected inputs of the specification: the line "1 1 1" is
  refused for its number of pieces and the line "a 1" with the parse error of its
  first piece; in both cases the state is the initial one with the board, the
  prompt and the message printed, and the same player is asked again.
\<close>

lemma scenario_rejected_lines:
  "turn initial_game (ReadOk ''1 1 1\<newline>'') =
     Inr (initial_game\<lparr>stdout :=
       ['' | | \<newline>-+-+-\<newline> | | \<newline>-+-+-\<newline> | | \<newline>'', ''Player 1: '',
        ''Incorrect number of arguments'']\<rparr>) \<and>
   turn initial_game (ReadOk ''a 1\<newline>'') =
     Inr (initial_game\<lparr>stdout :=
       ['' | | \<newline>-+-+-\<newline> | | \<newline>-+-+-\<newline> | | \<newline>'', ''Player 1: '',
        ''invalid digit found in string'']\<rparr>)"
  by (simp add: exec_eval)

text \<open>
  A line that is not valid UTF-8 is read to its line break and
  dropped without a message: the bytes C3 28 are no character, so the first read
  fails, the board and the prompt are printed a second time, and the game goes
  on with the next line.
\<close>

lemma scenario_invalid_utf8_line:
  "lines_of [CHR 0xC3, CHR 0x28, CHR 0x0A, CHR ''1'', CHR '' '', CHR ''1'', CHR 0x0A] =
     [ReadErr, ReadOk ''1 1\<newline>''] \<and>
   main_loop 2 (lines_of [CHR 0xC3, CHR 0x28, CHR 0x0A, CHR ''1'', CHR '' '', CHR ''1'', CHR 0x0A])
       initial_game = None \<and>
   main_loop 1 (lines_of [CHR 0xC3, CHR 0x28, CHR 0x0A]) initial_game = None \<and>
   turn initial_game (fst (read_line [CHR 0xC3, CHR 0x28, CHR 0x0A])) =
     Inr (initial_game\<lparr>stdout :=
       ['' | | \<newline>-+-+-\<newline> | | \<newline>-+-+-\<newline> | | \<newline>'', ''Player 1: '']\<rparr>)"
  by (simp add: exec_eval)

text \<open>
  What the loop accepts as a line. A leading \<^verbatim>\<open>+\<close> is accepted. The
  line is cut at every single space, so two spaces or a tabulator between the
  numbers, or a space before the first number, give a wrong number of pieces; a
  space after the first number and nothing else gives an empty second piece; a
  minus sign is an invalid digit.
\<close>

lemma input_forms:
  "parse_line ''+1 +2\<newline>'' = Inr (1, 2) \<and>
   parse_line ''1  2\<newline>'' = Inl WrongArity \<and>
   parse_line [CHR ''1'', CHR 0x09, CHR ''2'', CHR 0x0A] = Inl WrongArity \<and>
   parse_line '' 1 2\<newline>'' = Inl WrongArity \<and>
   parse_line ''1 \<newline>'' = Inl (SecondInvalid Empty) \<and>
   parse_line ''-1 x\<newline>'' = Inl (BothInvalid InvalidDigit InvalidDigit)"
  by (simp add: exec_eval)

text \<open>
  The end of the input with an output that accepts three lines, as in a pipe
  whose reader has gone: the board, the prompt and the message of the empty line
  are written, the board of the second iteration is not, and the process ends with
  the panic of \<^verbatim>\<open>println!\<close>. With a reliable output the same input never ends.
\<close>

lemma scenario_closed_output:
  "run 2 [] (Some 3) =
     Some (concat
       ['' | | \<newline>-+-+-\<newline> | | \<newline>-+-+-\<newline> | | \<newline>\<newline>'', ''Player 1: \<newline>'',
        ''Incorrect number of arguments\<newline>''], Panicked FailedPrinting) \<and>
   run 1000 [] None = None"
proof
  show "run 2 [] (Some 3) =
      Some (concat
        ['' | | \<newline>-+-+-\<newline> | | \<newline>-+-+-\<newline> | | \<newline>\<newline>'', ''Player 1: \<newline>'',
         ''Incorrect number of arguments\<newline>''], Panicked FailedPrinting)"
    by (simp add: exec_eval)
  show "run 1000 [] None = None"
    by (simp add: run_is_process process_diverges lines_of_Nil start_def)
qed

end
